theory Spec2Isabelle
  imports Complex_Main
begin

section \<open>The session layer of the Bolt driver (neo4j/session.py)\<close>

text \<open>
  A shallow embedding of \<^verbatim>\<open>neo4j/session.py\<close>: the latency sample \<^verbatim>\<open>BenchTest\<close>, the
  result row \<^verbatim>\<open>Record\<close>, \<^verbatim>\<open>Session.run\<close> with its four callbacks, and the
  \<^verbatim>\<open>Transaction\<close> state machine. Exceptions are values of the type \<open>error\<close>; a function
  that can raise returns \<open>error + 'a\<close> together with the state it leaves behind.
\<close>

subsection \<open>Exceptions\<close>

text \<open>
  The exceptions the module raises, under their Python names. \<open>AssertionError\<close> is what a
  failed \<^verbatim>\<open>assert\<close> raises, \<open>CypherError\<close> is raised by \<^verbatim>\<open>on_failure\<close>, \<open>TypeError\<close> and
  \<open>AttributeError\<close> by \<^verbatim>\<open>Record\<close>, \<open>IndexError\<close> and \<open>KeyError\<close> by the list, tuple and
  dict accesses of the module. \<open>Blocked\<close> is not an exception: it stands for a call that
  never returns, because the peer sends nothing more.
\<close>

datatype error =
    CypherError string
  | AssertionError
  | TypeError
  | AttributeError string
  | IndexError
  | KeyError string
  | Blocked

subsection \<open>BenchTest and Latency\<close>

text \<open>
  \<^verbatim>\<open>Latency = namedtuple("Latency", ["overall", "network", "wait"])\<close>. Timestamps are the
  values of \<^verbatim>\<open>perf_counter()\<close>: floats, taken here as the real numbers they denote. The six
  attributes of a \<^verbatim>\<open>BenchTest\<close> start as \<^verbatim>\<open>None\<close>; the attribute \<^verbatim>\<open>done\<close> is called
  \<open>done_t\<close>.
\<close>

record Latency =
  overall :: real
  network :: real
  wait :: real

record BenchTest =
  init :: "real option"
  start_send :: "real option"
  end_send :: "real option"
  start_recv :: "real option"
  end_recv :: "real option"
  done_t :: "real option"

definition BenchTest_new :: BenchTest where
  "BenchTest_new =
     \<lparr>init = None, start_send = None, end_send = None,
      start_recv = None, end_recv = None, done_t = None\<rparr>"

text \<open>
  Subtraction of two attributes. \<^verbatim>\<open>None - x\<close> raises \<^verbatim>\<open>TypeError\<close> in Python. The
  difference of two floats is a float again: the exact difference, rounded. The rounding
  of the interpreter's float arithmetic is the parameter \<open>rnd\<close>; the theorems assume of
  it only that it is monotone and maps 0 to 0, as rounding to the nearest float does.
  With a rounding the sum of two differences need not be the difference of the sums.
\<close>

fun minus_ts :: "(real \<Rightarrow> real) \<Rightarrow> real option \<Rightarrow> real option \<Rightarrow> error + real" where
  "minus_ts rnd (Some a) (Some b) = Inr (rnd (a - b))"
| "minus_ts rnd _ _ = Inl TypeError"

text \<open>\<^verbatim>\<open>BenchTest.latency(self)\<close>.\<close>

definition latency :: "(real \<Rightarrow> real) \<Rightarrow> BenchTest \<Rightarrow> error + Latency" where
  "latency rnd self =
     (case minus_ts rnd (done_t self) (init self) of
        Inl e \<Rightarrow> Inl e
      | Inr o_all \<Rightarrow>
          (case minus_ts rnd (end_recv self) (start_send self) of
             Inl e \<Rightarrow> Inl e
           | Inr net \<Rightarrow>
               (case minus_ts rnd (start_recv self) (end_send self) of
                  Inl e \<Rightarrow> Inl e
                | Inr w \<Rightarrow> Inr \<lparr>overall = o_all, network = net, wait = w\<rparr>)))"

text \<open>
  A rounding for the examples: to the nearest multiple of \<open>1 / 2 ^ 52\<close>. It is monotone and
  leaves every integer as it is, as the rounding of 64-bit floats does for the integers
  of the examples.
\<close>

definition nearest :: "real \<Rightarrow> real" where
  "nearest x = of_int \<lfloor>x * 2 ^ 52 + 1 / 2\<rfloor> / 2 ^ 52"

text \<open>The order in which \<^verbatim>\<open>Session.run\<close> takes the six timestamps.\<close>

definition ordered :: "BenchTest \<Rightarrow> bool" where
  "ordered b =
     (case (init b, start_send b, end_send b, start_recv b, end_recv b, done_t b) of
        (Some i, Some ss, Some es, Some sr, Some er, Some d) \<Rightarrow>
          i \<le> ss \<and> ss \<le> es \<and> es \<le> sr \<and> sr \<le> er \<and> er \<le> d
      | _ \<Rightarrow> False)"

subsection \<open>Record\<close>

text \<open>
  \<^verbatim>\<open>Record(fields, values)\<close> stores its arguments in the instance attributes
  \<^verbatim>\<open>__fields__\<close> and \<^verbatim>\<open>__values__\<close> (\<open>r_fields\<close> and \<open>r_values\<close> here).
\<close>

record 'v Record =
  r_fields :: "string list"
  r_values :: "'v list"

text \<open>
  What an attribute lookup on a \<^verbatim>\<open>Record\<close> can return: a field's value (from
  \<^verbatim>\<open>__getattr__\<close>), one of the two instance attributes, or an attribute of the class
  (a method, the docstring, what \<^verbatim>\<open>object\<close> provides), kept by its name.
\<close>

datatype 'v attribute =
    Value 'v
  | FieldList "string list"
  | ValueTuple "'v list"
  | ClassAttribute string

text \<open>
  The index given to \<^verbatim>\<open>record[item]\<close>: a \<^verbatim>\<open>string\<close>, an \<^verbatim>\<open>integer\<close>, or a value of any
  other type (a float, \<^verbatim>\<open>None\<close>, a tuple), which the model leaves abstract.
\<close>

datatype 'o item = String string | Integer int | Other 'o

text \<open>\<^verbatim>\<open>xs.index(x)\<close>: the first position of \<open>x\<close>; \<open>None\<close> where Python raises \<^verbatim>\<open>ValueError\<close>.\<close>

fun list_index :: "'a list \<Rightarrow> 'a \<Rightarrow> nat option" where
  "list_index [] x = None"
| "list_index (y # ys) x =
     (if y = x then Some 0 else map_option Suc (list_index ys x))"

text \<open>
  \<^verbatim>\<open>xs[i]\<close> on a list or a tuple: a negative index counts from the end, an index out of
  range raises \<^verbatim>\<open>IndexError\<close>.
\<close>

definition getitem :: "'a list \<Rightarrow> int \<Rightarrow> error + 'a" where
  "getitem xs i =
     (if 0 \<le> i
      then (if nat i < length xs then Inr (xs ! nat i) else Inl IndexError)
      else (if nat (- i) \<le> length xs then Inr (xs ! (length xs - nat (- i)))
            else Inl IndexError))"

text \<open>
  \<^verbatim>\<open>Record.__getattr__(self, item)\<close>: the value at the first position of the name among
  the fields, \<^verbatim>\<open>AttributeError\<close> when the name is not a field.
\<close>

definition Record_getattr :: "'v Record \<Rightarrow> string \<Rightarrow> error + 'v attribute" where
  "Record_getattr self item =
     (case list_index (r_fields self) item of
        None \<Rightarrow> Inl (AttributeError item)
      | Some i \<Rightarrow> map_sum id Value (getitem (r_values self) (int i)))"

text \<open>
  The names Python finds on a \<^verbatim>\<open>Record\<close> without calling \<^verbatim>\<open>__getattr__\<close>: the two
  instance attributes set by \<^verbatim>\<open>__init__\<close>, and the names bound in the class body (the
  methods and the docstring).
\<close>

definition instance_dict :: "'v Record \<Rightarrow> (string \<times> 'v attribute) list" where
  "instance_dict self =
     [(''__fields__'', FieldList (r_fields self)),
      (''__values__'', ValueTuple (r_values self))]"

definition class_dict :: "string list" where
  "class_dict =
     [''__doc__'', ''__init__'', ''__repr__'', ''__eq__'', ''__ne__'', ''__len__'',
      ''__getitem__'', ''__getattr__'']"

text \<open>
  \<^verbatim>\<open>getattr(self, item)\<close>, which is also \<^verbatim>\<open>self.item\<close>: Python looks the name up on the
  instance and its class first and calls \<^verbatim>\<open>__getattr__\<close> only when that lookup fails.
  The parameter \<open>base\<close> lists the names the interpreter itself provides on every instance
  (\<^verbatim>\<open>__class__\<close>, \<^verbatim>\<open>__dict__\<close>, \<^verbatim>\<open>__module__\<close>, \<^verbatim>\<open>__hash__\<close>, ...); they differ between
  Python versions, and the theorems hold for every such list.
\<close>

definition py_getattr :: "string list \<Rightarrow> 'v Record \<Rightarrow> string \<Rightarrow> error + 'v attribute" where
  "py_getattr base self item =
     (case map_of (instance_dict self) item of
        Some a \<Rightarrow> Inr a
      | None \<Rightarrow>
          if item \<in> set (class_dict @ base) then Inr (ClassAttribute item)
          else Record_getattr self item)"

text \<open>The names that the ordinary lookup resolves, so that \<^verbatim>\<open>__getattr__\<close> is not called.\<close>

definition shadowed :: "string list \<Rightarrow> string \<Rightarrow> bool" where
  "shadowed base item \<longleftrightarrow> item \<in> set ([''__fields__'', ''__values__''] @ class_dict @ base)"

text \<open>\<^verbatim>\<open>Record.__getitem__(self, item)\<close>.\<close>

definition Record_getitem :: "string list \<Rightarrow> 'v Record \<Rightarrow> 'o item \<Rightarrow> error + 'v attribute" where
  "Record_getitem base self item =
     (case item of
        String s \<Rightarrow> py_getattr base self s
      | Integer i \<Rightarrow>
          (case getitem (r_fields self) i of
             Inl e \<Rightarrow> Inl e
           | Inr name \<Rightarrow> py_getattr base self name)
      | Other x \<Rightarrow> Inl TypeError)"

text \<open>\<^verbatim>\<open>Record.__len__(self)\<close>.\<close>

definition Record_len :: "'v Record \<Rightarrow> nat" where
  "Record_len self = length (r_fields self)"

subsection \<open>Connection and Response\<close>

text \<open>
  Modelled from the spec: the request kinds \<^verbatim>\<open>RUN\<close> and \<^verbatim>\<open>PULL_ALL\<close> and the messages of
  \<^verbatim>\<open>neo4j/connection.py\<close>, which is not among the sources. A query-execution request
  carries the statement and the parameters, a result-stream request carries nothing. The
  peer answers with success messages (the header of the run-response, the footer of the
  pull-response), record messages and failure messages. The statement is text (a bytes
  statement is decoded to text before anything else happens); the parameters are a
  dict, here an association list over the raw values \<open>'r\<close>. The \<^verbatim>\<open>metadata\<close> of a summary
  message is a dict; the only key this module reads is \<^verbatim>\<open>"fields"\<close>, whose value is a list
  of names.
\<close>

datatype request_kind = RUN | PULL_ALL

type_synonym 'r parameters = "(string \<times> 'r) list"

type_synonym 'r request = "request_kind \<times> (string \<times> 'r parameters) option"

type_synonym metadata = "(string \<times> string list) list"

datatype 'r message =
    SUCCESS metadata
  | RECORD "'r list"
  | FAILURE metadata

text \<open>
  The two \<^verbatim>\<open>Response\<close> objects that a call of \<^verbatim>\<open>Session.run\<close> creates, named by the
  callbacks the call binds to them. The number identifies the call whose local variables
  (\<^verbatim>\<open>fields\<close>, \<^verbatim>\<open>records\<close>, \<^verbatim>\<open>t\<close>) the callbacks close over.
\<close>

datatype response = RunResponse nat | PullAllResponse nat

text \<open>
  What a call did to the connection, in order: kept in the connection so that the
  order of the calls can be stated. \<open>ConsumeEnd\<close> is written when \<^verbatim>\<open>consume()\<close> returns.
\<close>

datatype 'r event =
    Append request_kind "(string \<times> 'r parameters) option" response
  | Send
  | ConsumeBegin response
  | ConsumeEnd response

text \<open>
  Modelled from the spec: the \<^verbatim>\<open>Connection\<close> of \<^verbatim>\<open>neo4j/connection.py\<close>. It accepts
  queued requests, each tagged with its response receiver (\<open>outbox\<close>, \<open>responses\<close>),
  flushes them (\<open>wire\<close>), and is advanced message by message. The messages the peer will
  deliver are the \<open>inbox\<close>, in arrival order; the pending responses receive them first
  in, first out.
\<close>

record 'r connection =
  outbox :: "'r request list"
  wire :: "'r request list"
  responses :: "response list"
  inbox :: "'r message list"
  trace :: "'r event list"

text \<open>Modelled from the spec: \<^verbatim>\<open>Connection.append(signature, fields, response)\<close>, enqueue.\<close>

definition append_request ::
  "request_kind \<Rightarrow> (string \<times> 'r parameters) option \<Rightarrow> response \<Rightarrow> 'r connection \<Rightarrow> 'r connection" where
  "append_request signature flds response c =
     c\<lparr>outbox := outbox c @ [(signature, flds)],
       responses := responses c @ [response],
       trace := trace c @ [Append signature flds response]\<rparr>"

text \<open>Modelled from the spec: \<^verbatim>\<open>Connection.send()\<close>, flush.\<close>

definition send :: "'r connection \<Rightarrow> 'r connection" where
  "send c = c\<lparr>wire := wire c @ outbox c, outbox := [], trace := trace c @ [Send]\<rparr>"

text \<open>A summary message makes the response that receives it terminal.\<close>

fun summary :: "'r message \<Rightarrow> bool" where
  "summary (SUCCESS md) = True"
| "summary (RECORD vs) = False"
| "summary (FAILURE md) = True"

subsection \<open>Session.run\<close>

text \<open>
  The local variables of one call of \<^verbatim>\<open>Session.run\<close>, which its callbacks read and
  update: \<^verbatim>\<open>fields\<close> (\<open>field_names\<close>), \<^verbatim>\<open>records\<close> and \<^verbatim>\<open>t\<close> (\<open>bench\<close>), together with the connection and
  the number of \<^verbatim>\<open>perf_counter()\<close> readings taken so far (\<open>ticks\<close>). The clock is a
  parameter \<open>clock\<close>: the \<open>n\<close>-th reading of \<^verbatim>\<open>perf_counter()\<close> is \<open>clock n\<close>. The function
  \<^verbatim>\<open>hydrated\<close> of \<^verbatim>\<open>neo4j/typesystem.py\<close> is a parameter too, a function from raw values
  \<open>'r\<close> to values \<open>'v\<close>.
\<close>

record ('r, 'v) frame =
  conn :: "'r connection"
  ticks :: nat
  field_names :: "string list"
  records :: "'v Record list"
  bench :: BenchTest

text \<open>
  \<^verbatim>\<open>on_header(metadata)\<close>: \<^verbatim>\<open>metadata["fields"]\<close> raises \<^verbatim>\<open>KeyError\<close> when the key is
  missing. \<^verbatim>\<open>fields.extend\<close> changes the list in place, and every \<^verbatim>\<open>Record\<close> built by this
  call holds that same list, so the records created so far see the extension.
\<close>

definition on_header :: "(nat \<Rightarrow> real) \<Rightarrow> metadata \<Rightarrow> ('r, 'v) frame \<Rightarrow> error + ('r, 'v) frame" where
  "on_header clock md f =
     (case map_of md ''fields'' of
        None \<Rightarrow> Inl (KeyError ''fields'')
      | Some names \<Rightarrow>
          Inr (f\<lparr>field_names := field_names f @ names,
                 records := map (\<lambda>r. r\<lparr>r_fields := field_names f @ names\<rparr>) (records f),
                 bench := (bench f)\<lparr>start_recv := Some (clock (ticks f))\<rparr>,
                 ticks := Suc (ticks f)\<rparr>))"

text \<open>\<^verbatim>\<open>on_record(values)\<close>: \<^verbatim>\<open>records.append(Record(fields, tuple(map(hydrated, values))))\<close>.\<close>

definition on_record :: "('r \<Rightarrow> 'v) \<Rightarrow> 'r list \<Rightarrow> ('r, 'v) frame \<Rightarrow> ('r, 'v) frame" where
  "on_record hydrated vs f =
     f\<lparr>records := records f @ [\<lparr>r_fields = field_names f, r_values = map hydrated vs\<rparr>]\<rparr>"

text \<open>\<^verbatim>\<open>on_footer(metadata)\<close>.\<close>

definition on_footer :: "(nat \<Rightarrow> real) \<Rightarrow> metadata \<Rightarrow> ('r, 'v) frame \<Rightarrow> ('r, 'v) frame" where
  "on_footer clock md f =
     f\<lparr>bench := (bench f)\<lparr>end_recv := Some (clock (ticks f))\<rparr>, ticks := Suc (ticks f)\<rparr>"

text \<open>\<^verbatim>\<open>on_failure(metadata)\<close>: \<^verbatim>\<open>raise CypherError("FAILURE")\<close>, whatever the metadata.\<close>

definition on_failure :: "metadata \<Rightarrow> error" where
  "on_failure md = CypherError ''FAILURE''"

text \<open>
  The callbacks of a response left pending by an earlier call of \<^verbatim>\<open>run\<close> (one that
  raised): they update the local variables of that call, which nothing can reach any
  more. What remains is the \<^verbatim>\<open>KeyError\<close> of \<^verbatim>\<open>on_header\<close> and the clock readings.
\<close>

definition earlier_on_header :: "metadata \<Rightarrow> ('r, 'v) frame \<Rightarrow> error + ('r, 'v) frame" where
  "earlier_on_header md f =
     (case map_of md ''fields'' of
        None \<Rightarrow> Inl (KeyError ''fields'')
      | Some names \<Rightarrow> Inr (f\<lparr>ticks := Suc (ticks f)\<rparr>))"

definition earlier_on_footer :: "('r, 'v) frame \<Rightarrow> ('r, 'v) frame" where
  "earlier_on_footer f = f\<lparr>ticks := Suc (ticks f)\<rparr>"

text \<open>
  Modelled from the spec: a success message goes to \<^verbatim>\<open>on_success\<close>, a record message to
  \<^verbatim>\<open>on_record\<close>, a failure message to \<^verbatim>\<open>on_failure\<close>, and a callback that is not set does
  nothing. Here the message \<open>m\<close> is handed to the callback of the response \<open>r\<close>, during
  call number \<open>k\<close> of \<^verbatim>\<open>run\<close>. A run-response has \<^verbatim>\<open>on_success = on_header\<close> and no record callback; a
  pull-response has \<^verbatim>\<open>on_record\<close> and \<^verbatim>\<open>on_success = on_footer\<close>; both have \<^verbatim>\<open>on_failure\<close>.
\<close>

definition deliver ::
  "(nat \<Rightarrow> real) \<Rightarrow> ('r \<Rightarrow> 'v) \<Rightarrow> nat \<Rightarrow> response \<Rightarrow> 'r message \<Rightarrow> ('r, 'v) frame
     \<Rightarrow> error + ('r, 'v) frame" where
  "deliver clock hydrated k r m f =
     (case m of
        SUCCESS md \<Rightarrow>
          (case r of
             RunResponse j \<Rightarrow> if j = k then on_header clock md f else earlier_on_header md f
           | PullAllResponse j \<Rightarrow> Inr (if j = k then on_footer clock md f else earlier_on_footer f))
      | RECORD vs \<Rightarrow>
          (case r of
             RunResponse j \<Rightarrow> Inr f
           | PullAllResponse j \<Rightarrow> Inr (if j = k then on_record hydrated vs f else f))
      | FAILURE md \<Rightarrow> Inl (on_failure md))"

text \<open>
  Modelled from the spec: the loop of \<^verbatim>\<open>Response.consume()\<close>, which drives the connection
  until the response \<open>target\<close> is terminal. Each message goes to the first pending
  response; a summary message makes that response terminal and removes it from the
  pending ones, also when its callback raises. When no message is left the call blocks
  for ever. The messages not yet received are the fourth argument, and are written
  back to the connection when the loop ends.
\<close>

fun fetch_loop ::
  "(nat \<Rightarrow> real) \<Rightarrow> ('r \<Rightarrow> 'v) \<Rightarrow> nat \<Rightarrow> response \<Rightarrow> 'r message list \<Rightarrow> ('r, 'v) frame
     \<Rightarrow> (error + unit) \<times> ('r, 'v) frame" where
  "fetch_loop clock hydrated k target [] f =
     (if target \<in> set (responses (conn f))
      then (Inl Blocked, f\<lparr>conn := (conn f)\<lparr>inbox := []\<rparr>\<rparr>)
      else (Inr (), f\<lparr>conn := (conn f)\<lparr>inbox := []\<rparr>\<rparr>))"
| "fetch_loop clock hydrated k target (m # ms) f =
     (if target \<in> set (responses (conn f))
      then
        (let r = hd (responses (conn f));
             f' = (if summary m
                   then f\<lparr>conn := (conn f)\<lparr>responses := tl (responses (conn f))\<rparr>\<rparr>
                   else f)
         in case deliver clock hydrated k r m f' of
              Inl e \<Rightarrow> (Inl e, f'\<lparr>conn := (conn f')\<lparr>inbox := ms\<rparr>\<rparr>)
            | Inr f'' \<Rightarrow> fetch_loop clock hydrated k target ms f'')
      else (Inr (), f\<lparr>conn := (conn f)\<lparr>inbox := m # ms\<rparr>\<rparr>))"

text \<open>Modelled from the spec: \<^verbatim>\<open>Response.consume()\<close> on the response \<open>target\<close>.\<close>

definition consume ::
  "(nat \<Rightarrow> real) \<Rightarrow> ('r \<Rightarrow> 'v) \<Rightarrow> nat \<Rightarrow> response \<Rightarrow> ('r, 'v) frame
     \<Rightarrow> (error + unit) \<times> ('r, 'v) frame" where
  "consume clock hydrated k target f =
     (let f1 = f\<lparr>conn := (conn f)\<lparr>trace := trace (conn f) @ [ConsumeBegin target]\<rparr>\<rparr>
      in case fetch_loop clock hydrated k target (inbox (conn f1)) f1 of
           (Inl e, f2) \<Rightarrow> (Inl e, f2)
         | (Inr u, f2) \<Rightarrow>
             (Inr (), f2\<lparr>conn := (conn f2)\<lparr>trace := trace (conn f2) @ [ConsumeEnd target]\<rparr>\<rparr>))"

text \<open>
  A \<^verbatim>\<open>Session\<close>: its connection, its transaction slot (a reference to the open
  \<^verbatim>\<open>Transaction\<close>, kept as that object's identity) and its latency samples. \<open>objects\<close>
  counts the calls of \<^verbatim>\<open>run\<close> and the \<^verbatim>\<open>Transaction\<close> objects created so far and gives
  each its identity; \<open>clock_reads\<close> counts the readings of \<^verbatim>\<open>perf_counter()\<close>.
\<close>

record 'r session =
  connection :: "'r connection"
  transaction :: "nat option"
  bench_tests :: "BenchTest list"
  objects :: nat
  clock_reads :: nat

text \<open>\<^verbatim>\<open>Session.__init__(self, connection)\<close>.\<close>

definition Session_init :: "'r connection \<Rightarrow> 'r session" where
  "Session_init c =
     \<lparr>connection = c, transaction = None, bench_tests = [], objects = 0, clock_reads = 0\<rparr>"

text \<open>\<^verbatim>\<open>t.x = perf_counter()\<close> for one of the six attributes, given as its update function.\<close>

definition stamp ::
  "(nat \<Rightarrow> real) \<Rightarrow> ((real option \<Rightarrow> real option) \<Rightarrow> BenchTest \<Rightarrow> BenchTest) \<Rightarrow> ('r, 'v) frame
     \<Rightarrow> ('r, 'v) frame" where
  "stamp clock upd f = f\<lparr>bench := upd (\<lambda>_. Some (clock (ticks f))) (bench f), ticks := Suc (ticks f)\<rparr>"

text \<open>The session as a call of \<^verbatim>\<open>run\<close> leaves it, whether it returns or raises.\<close>

definition leave :: "'r session \<Rightarrow> ('r, 'v) frame \<Rightarrow> 'r session" where
  "leave self f =
     self\<lparr>connection := conn f, clock_reads := ticks f, objects := Suc (objects self)\<rparr>"

text \<open>
  \<^verbatim>\<open>Session.run(self, statement, parameters=None)\<close>. \<^verbatim>\<open>dict(parameters or {})\<close> is the given
  dict, or the empty one for \<^verbatim>\<open>None\<close>. The result is the list \<^verbatim>\<open>records\<close>, or the exception
  that unwinds out of the call.
\<close>

definition run ::
  "(nat \<Rightarrow> real) \<Rightarrow> ('r \<Rightarrow> 'v) \<Rightarrow> 'r session \<Rightarrow> string \<Rightarrow> 'r parameters option
     \<Rightarrow> (error + 'v Record list) \<times> 'r session" where
  "run clock hydrated self statement parameters =
     (let k = objects self;
          parameters = (case parameters of None \<Rightarrow> [] | Some d \<Rightarrow> d);
          f0 = \<lparr>conn = connection self, ticks = clock_reads self,
                field_names = [], records = [], bench = BenchTest_new\<rparr>;
          f1 = stamp clock init_update f0;
          run_response = RunResponse k;
          pull_all_response = PullAllResponse k;
          f2 = f1\<lparr>conn := append_request RUN (Some (statement, parameters)) run_response (conn f1)\<rparr>;
          f3 = f2\<lparr>conn := append_request PULL_ALL None pull_all_response (conn f2)\<rparr>;
          f4 = stamp clock start_send_update f3;
          f5 = f4\<lparr>conn := send (conn f4)\<rparr>;
          f6 = stamp clock end_send_update f5
      in case consume clock hydrated k run_response f6 of
           (Inl e, f7) \<Rightarrow> (Inl e, leave self f7)
         | (Inr u, f7) \<Rightarrow>
             (case consume clock hydrated k pull_all_response f7 of
                (Inl e, f8) \<Rightarrow> (Inl e, leave self f8)
              | (Inr u, f8) \<Rightarrow>
                  (let f9 = stamp clock done_t_update f8
                   in (Inr (records f9),
                       (leave self f9)\<lparr>bench_tests := bench_tests self @ [bench f9]\<rparr>))))"

subsection \<open>Transaction\<close>

text \<open>
  A \<^verbatim>\<open>Transaction\<close> object: its identity and its two flags, which the class sets to
  \<^verbatim>\<open>False\<close>. Its \<^verbatim>\<open>session\<close> attribute is the session passed along with it. A method
  returns the object and the session as it leaves them, also when it raises.
\<close>

record transaction_obj =
  ident :: nat
  success :: bool
  closed :: bool

text \<open>\<^verbatim>\<open>Transaction(session)\<close>: a new object, then \<^verbatim>\<open>__init__\<close>, which runs \<^verbatim>\<open>BEGIN\<close>.\<close>

definition Transaction_init ::
  "(nat \<Rightarrow> real) \<Rightarrow> ('r \<Rightarrow> 'v) \<Rightarrow> 'r session \<Rightarrow> (error + transaction_obj) \<times> 'r session" where
  "Transaction_init clock hydrated session =
     (let tx = \<lparr>ident = objects session, success = False, closed = False\<rparr>;
          session1 = session\<lparr>objects := Suc (objects session)\<rparr>
      in case run clock hydrated session1 ''BEGIN'' None of
           (Inl e, session2) \<Rightarrow> (Inl e, session2)
         | (Inr rs, session2) \<Rightarrow> (Inr tx, session2))"

text \<open>\<^verbatim>\<open>Session.new_transaction(self)\<close>.\<close>

definition new_transaction ::
  "(nat \<Rightarrow> real) \<Rightarrow> ('r \<Rightarrow> 'v) \<Rightarrow> 'r session \<Rightarrow> (error + transaction_obj) \<times> 'r session" where
  "new_transaction clock hydrated self =
     (if transaction self \<noteq> None then (Inl AssertionError, self)
      else case Transaction_init clock hydrated self of
             (Inl e, self1) \<Rightarrow> (Inl e, self1)
           | (Inr tx, self1) \<Rightarrow> (Inr tx, self1\<lparr>transaction := Some (ident tx)\<rparr>))"

text \<open>\<^verbatim>\<open>Transaction.run(self, statement, parameters=None)\<close>.\<close>

definition Transaction_run ::
  "(nat \<Rightarrow> real) \<Rightarrow> ('r \<Rightarrow> 'v) \<Rightarrow> transaction_obj \<Rightarrow> 'r session \<Rightarrow> string \<Rightarrow> 'r parameters option
     \<Rightarrow> (error + 'v Record list) \<times> transaction_obj \<times> 'r session" where
  "Transaction_run clock hydrated self session statement parameters =
     (if closed self then (Inl AssertionError, self, session)
      else case run clock hydrated session statement parameters of
             (res, session1) \<Rightarrow> (res, self, session1))"

text \<open>\<^verbatim>\<open>Transaction.close(self)\<close>.\<close>

definition Transaction_close ::
  "(nat \<Rightarrow> real) \<Rightarrow> ('r \<Rightarrow> 'v) \<Rightarrow> transaction_obj \<Rightarrow> 'r session
     \<Rightarrow> (error + unit) \<times> transaction_obj \<times> 'r session" where
  "Transaction_close clock hydrated self session =
     (if closed self then (Inl AssertionError, self, session)
      else case run clock hydrated session (if success self then ''COMMIT'' else ''ROLLBACK'') None of
             (Inl e, session1) \<Rightarrow> (Inl e, self, session1)
           | (Inr (rs :: 'v Record list), session1) \<Rightarrow>
               (Inr (), self\<lparr>closed := True\<rparr>, session1\<lparr>transaction := None\<rparr>))"

text \<open>\<^verbatim>\<open>Transaction.commit(self)\<close>.\<close>

definition Transaction_commit ::
  "(nat \<Rightarrow> real) \<Rightarrow> ('r \<Rightarrow> 'v) \<Rightarrow> transaction_obj \<Rightarrow> 'r session
     \<Rightarrow> (error + unit) \<times> transaction_obj \<times> 'r session" where
  "Transaction_commit clock hydrated self session =
     Transaction_close clock hydrated (self\<lparr>success := True\<rparr>) session"

text \<open>\<^verbatim>\<open>Transaction.rollback(self)\<close>.\<close>

definition Transaction_rollback ::
  "(nat \<Rightarrow> real) \<Rightarrow> ('r \<Rightarrow> 'v) \<Rightarrow> transaction_obj \<Rightarrow> 'r session
     \<Rightarrow> (error + unit) \<times> transaction_obj \<times> 'r session" where
  "Transaction_rollback clock hydrated self session =
     Transaction_close clock hydrated (self\<lparr>success := False\<rparr>) session"

subsection \<open>Auxiliary definitions for the statements\<close>

text \<open>
  The local variables of \<^verbatim>\<open>Session.run\<close> at the point where both requests are flushed and
  \<^verbatim>\<open>t.end_send\<close> is set, just before the first \<^verbatim>\<open>consume()\<close>: the prefix of \<open>run\<close>.
\<close>

definition requested ::
  "(nat \<Rightarrow> real) \<Rightarrow> 'r session \<Rightarrow> string \<Rightarrow> 'r parameters option \<Rightarrow> ('r, 'v) frame" where
  "requested clock self statement parameters =
     (let k = objects self;
          parameters = (case parameters of None \<Rightarrow> [] | Some d \<Rightarrow> d);
          f0 = \<lparr>conn = connection self, ticks = clock_reads self,
                field_names = [], records = [], bench = BenchTest_new\<rparr>;
          f1 = stamp clock init_update f0;
          run_response = RunResponse k;
          pull_all_response = PullAllResponse k;
          f2 = f1\<lparr>conn := append_request RUN (Some (statement, parameters)) run_response (conn f1)\<rparr>;
          f3 = f2\<lparr>conn := append_request PULL_ALL None pull_all_response (conn f2)\<rparr>;
          f4 = stamp clock start_send_update f3;
          f5 = f4\<lparr>conn := send (conn f4)\<rparr>
      in stamp clock end_send_update f5)"

text \<open>
  The call of \<^verbatim>\<open>run\<close> that created a response. In a session that \<^verbatim>\<open>Session.__init__\<close> and
  its methods produce, every pending response was created by an earlier call: the
  session is \<open>fresh\<close>. (A new \<^verbatim>\<open>Response\<close> object is never one that is already pending.)
\<close>

fun response_call :: "response \<Rightarrow> nat" where
  "response_call (RunResponse k) = k"
| "response_call (PullAllResponse k) = k"

definition fresh :: "'r session \<Rightarrow> bool" where
  "fresh self \<longleftrightarrow> (\<forall>r\<in>set (responses (connection self)). response_call r < objects self)"

text \<open>
  A session over a new connection to a stub server: the messages the server will send
  are given, nothing is queued or pending.
\<close>

definition stub_session :: "'r message list \<Rightarrow> 'r session" where
  "stub_session ms =
     Session_init \<lparr>outbox = [], wire = [], responses = [], inbox = ms, trace = []\<rparr>"

text \<open>
  The four methods that can be called on a \<^verbatim>\<open>Transaction\<close>, and a sequence of such calls
  on the same object, each continuing from the object and session the previous one
  left. The result lists, per call, the exception raised (\<open>None\<close> for a normal return).
\<close>

datatype 'r tx_call =
    CallRun string "'r parameters option"
  | CallCommit
  | CallRollback
  | CallClose

definition perform ::
  "(nat \<Rightarrow> real) \<Rightarrow> ('r \<Rightarrow> 'v) \<Rightarrow> 'r tx_call \<Rightarrow> transaction_obj \<Rightarrow> 'r session
     \<Rightarrow> error option \<times> transaction_obj \<times> 'r session" where
  "perform clock hydrated c tx session =
     (case c of
        CallRun statement parameters \<Rightarrow>
          (case Transaction_run clock hydrated tx session statement parameters of
             (Inl e, tx1, session1) \<Rightarrow> (Some e, tx1, session1)
           | (Inr (rs :: 'v Record list), tx1, session1) \<Rightarrow> (None, tx1, session1))
      | CallCommit \<Rightarrow>
          (case Transaction_commit clock hydrated tx session of
             (Inl e, tx1, session1) \<Rightarrow> (Some e, tx1, session1)
           | (Inr u, tx1, session1) \<Rightarrow> (None, tx1, session1))
      | CallRollback \<Rightarrow>
          (case Transaction_rollback clock hydrated tx session of
             (Inl e, tx1, session1) \<Rightarrow> (Some e, tx1, session1)
           | (Inr u, tx1, session1) \<Rightarrow> (None, tx1, session1))
      | CallClose \<Rightarrow>
          (case Transaction_close clock hydrated tx session of
             (Inl e, tx1, session1) \<Rightarrow> (Some e, tx1, session1)
           | (Inr u, tx1, session1) \<Rightarrow> (None, tx1, session1)))"

fun perform_all ::
  "(nat \<Rightarrow> real) \<Rightarrow> ('r \<Rightarrow> 'v) \<Rightarrow> 'r tx_call list \<Rightarrow> transaction_obj \<Rightarrow> 'r session
     \<Rightarrow> error option list \<times> transaction_obj \<times> 'r session" where
  "perform_all clock hydrated [] tx session = ([], tx, session)"
| "perform_all clock hydrated (c # cs) tx session =
     (case perform clock hydrated c tx session of
        (r, tx1, session1) \<Rightarrow>
          (case perform_all clock hydrated cs tx1 session1 of
             (rs, tx2, session2) \<Rightarrow> (r # rs, tx2, session2)))"

section \<open>Properties\<close>

subsection \<open>Lists and tuples\<close>

lemma list_index_None: "list_index xs x = None \<longleftrightarrow> x \<notin> set xs"
  by (induction xs) auto

lemma list_index_nth: "distinct xs \<Longrightarrow> i < length xs \<Longrightarrow> list_index xs (xs ! i) = Some i"
proof (induction xs arbitrary: i)
  case Nil
  then show ?case by simp
next
  case (Cons y ys)
  show ?case
  proof (cases i)
    case 0
    then show ?thesis by simp
  next
    case (Suc j)
    with Cons.prems have "j < length ys" and "distinct ys" and "ys ! j \<noteq> y"
      by auto
    with Cons.IH [of j] Suc show ?thesis by auto
  qed
qed

lemma getitem_nat: "i < length xs \<Longrightarrow> getitem xs (int i) = Inr (xs ! i)"
  by (simp add: getitem_def)

lemma getitem_negative:
  "1 \<le> k \<Longrightarrow> k \<le> length xs \<Longrightarrow> getitem xs (- int k) = Inr (xs ! (length xs - k))"
  by (simp add: getitem_def)

subsection \<open>Latency\<close>

lemma mono_nearest: "mono nearest"
proof (rule monoI)
  fix x y :: real
  assume "x \<le> y"
  then have "\<lfloor>x * 2 ^ 52 + 1 / 2\<rfloor> \<le> \<lfloor>y * 2 ^ 52 + 1 / 2\<rfloor>"
    by (intro floor_mono) simp
  then show "nearest x \<le> nearest y"
    by (simp add: nearest_def divide_right_mono)
qed

lemma nearest_zero: "nearest 0 = 0"
  by (simp add: nearest_def)

lemma nearest_of_int: "nearest (of_int n) = of_int n"
proof -
  have "\<lfloor>(of_int n :: real) * 2 ^ 52 + 1 / 2\<rfloor> = n * 2 ^ 52"
    by (rule floor_unique) simp_all
  then show ?thesis
    by (simp add: nearest_def)
qed

lemma nearest_numeral: "nearest (numeral n) = numeral n" "nearest 1 = 1"
  using nearest_of_int [of "numeral n"] nearest_of_int [of 1] by simp_all

text \<open>
  C6 (as amended). For every \<^verbatim>\<open>BenchTest\<close> whose six timestamps are set and satisfy
  \<open>init \<le> start_send \<le> end_send \<le> start_recv \<le> end_recv \<le> done\<close>, \<^verbatim>\<open>latency()\<close> returns
  the triple \<open>overall = done - init\<close>, \<open>network = end_recv - start_send\<close>,
  \<open>wait = start_recv - end_send\<close>, each a float subtraction, and the triple satisfies
  \<open>0 \<le> wait \<le> network \<le> overall\<close>. This holds for every rounding that is monotone and
  maps 0 to 0. The network latency already contains the send phase and the wait, so
  \<open>overall\<close> is not the sum of the send phase, \<open>wait\<close> and \<open>network\<close>.
\<close>

theorem latency_ordered:
  assumes "mono rnd" and "rnd 0 = 0" and "ordered b"
  shows "\<exists>i ss es sr er d l.
           init b = Some i \<and> start_send b = Some ss \<and> end_send b = Some es \<and>
           start_recv b = Some sr \<and> end_recv b = Some er \<and> done_t b = Some d \<and>
           latency rnd b = Inr l \<and>
           overall l = rnd (d - i) \<and> network l = rnd (er - ss) \<and> wait l = rnd (sr - es) \<and>
           0 \<le> wait l \<and> wait l \<le> network l \<and> network l \<le> overall l"
proof -
  from assms(3) obtain i ss es sr er d where ts:
    "init b = Some i" "start_send b = Some ss" "end_send b = Some es"
    "start_recv b = Some sr" "end_recv b = Some er" "done_t b = Some d"
    and le: "i \<le> ss" "ss \<le> es" "es \<le> sr" "sr \<le> er" "er \<le> d"
    by (auto simp: ordered_def split: option.splits)
  let ?l = "\<lparr>overall = rnd (d - i), network = rnd (er - ss), wait = rnd (sr - es)\<rparr>"
  have "latency rnd b = Inr ?l"
    by (simp add: latency_def ts)
  moreover have "rnd 0 \<le> rnd (sr - es)" "rnd (sr - es) \<le> rnd (er - ss)"
    "rnd (er - ss) \<le> rnd (d - i)"
    using le by (auto intro!: monoD [OF assms(1)])
  ultimately show ?thesis
    using ts assms(2) by auto
qed

theorem latency_ordered_witness:
  "mono nearest \<and> nearest 0 = 0 \<and>
   ordered \<lparr>init = Some 0, start_send = Some 1, end_send = Some 2,
            start_recv = Some 3, end_recv = Some 4, done_t = Some 10\<rparr> \<and>
   latency nearest \<lparr>init = Some 0, start_send = Some 1, end_send = Some 2,
            start_recv = Some 3, end_recv = Some 4, done_t = Some 10\<rparr>
     = Inr \<lparr>overall = 10, network = 3, wait = 1\<rparr>"
proof -
  let ?b = "\<lparr>init = Some 0, start_send = Some 1, end_send = Some 2,
            start_recv = Some 3, end_recv = Some 4, done_t = Some 10\<rparr>"
  have o: "ordered ?b" by (simp add: ordered_def)
  have l: "latency nearest ?b = Inr \<lparr>overall = 10, network = 3, wait = 1\<rparr>"
    by (simp add: latency_def nearest_numeral)
  from latency_ordered [OF mono_nearest nearest_zero o] show ?thesis
    by (simp only: o l mono_nearest nearest_zero simp_thms)
qed

text \<open>
  The identity of C6 as stated, \<open>overall = (end_send - start_send) + wait + network\<close>,
  fails for the ordered timestamps 0, 1, 2, 3, 4, 10: \<open>overall\<close> is 10 and the sum is 5.
  All these numbers are small integers, on which float arithmetic is exact.
\<close>

theorem latency_identity_counterexample:
  "ordered \<lparr>init = Some 0, start_send = Some 1, end_send = Some 2,
            start_recv = Some 3, end_recv = Some 4, done_t = Some 10\<rparr> \<and>
   (case latency nearest \<lparr>init = Some 0, start_send = Some 1, end_send = Some 2,
                  start_recv = Some 3, end_recv = Some 4, done_t = Some 10\<rparr> of
      Inl e \<Rightarrow> False
    | Inr l \<Rightarrow>
        overall l = 10 \<and>
        nearest (nearest (nearest (2 - 1) + wait l) + network l) = 5 \<and>
        overall l \<noteq> nearest (nearest (nearest (2 - 1) + wait l) + network l))"
  by (simp add: ordered_def latency_def nearest_numeral)

text \<open>
  The same for every rounding that leaves the integers 1, 2, 3, 5 and 10 as they are,
  as the rounding of 64-bit floats does: \<open>overall\<close> is 10 and the sum is 5.
\<close>

lemma latency_identity_fails:
  assumes "rnd 1 = 1" and "rnd 2 = 2" and "rnd 3 = 3" and "rnd 5 = 5" and "rnd 10 = 10"
  shows "latency rnd \<lparr>init = Some 0, start_send = Some 1, end_send = Some 2,
            start_recv = Some 3, end_recv = Some 4, done_t = Some 10\<rparr>
           = Inr \<lparr>overall = 10, network = 3, wait = 1\<rparr> \<and>
         rnd (rnd (rnd (2 - 1) + 1) + 3) = 5"
  using assms by (simp add: latency_def)

subsection \<open>Record lookup\<close>

lemma py_getattr_unshadowed:
  "\<not> shadowed base item \<Longrightarrow> py_getattr base self item = Record_getattr self item"
  by (auto simp: shadowed_def py_getattr_def instance_dict_def)

lemma Record_getattr_field:
  assumes "distinct (r_fields self)" and "i < length (r_fields self)" and "i < length (r_values self)"
  shows "Record_getattr self (r_fields self ! i) = Inr (Value (r_values self ! i))"
  using assms by (simp add: Record_getattr_def list_index_nth getitem_nat)

text \<open>
  C7 (as amended). For every \<^verbatim>\<open>Record\<close>, a lookup by a name that is neither one of its
  field names nor the name of an attribute the object already has (\<^verbatim>\<open>__fields__\<close>,
  \<^verbatim>\<open>__values__\<close>, a method, what the interpreter provides) raises \<^verbatim>\<open>AttributeError\<close>,
  both as \<^verbatim>\<open>record[name]\<close> and as \<^verbatim>\<open>record.name\<close>; a lookup \<^verbatim>\<open>record[item]\<close> with an
  index that is neither an integer nor a string raises \<^verbatim>\<open>TypeError\<close>.
\<close>

theorem Record_lookup_failures:
  "(item \<notin> set (r_fields self) \<and> \<not> shadowed base item \<longrightarrow>
      Record_getitem base self (String item :: 'o item) = Inl (AttributeError item) \<and>
      py_getattr base self item = Inl (AttributeError item)) \<and>
   Record_getitem base self (Other x :: 'o item) = Inl TypeError"
  by (simp add: Record_getitem_def py_getattr_unshadowed Record_getattr_def
      list_index_None [THEN iffD2])

theorem Record_lookup_failures_witness:
  "''nonexistent'' \<notin> set (r_fields \<lparr>r_fields = [''x''], r_values = [1::int]\<rparr>) \<and>
   \<not> shadowed [''__class__''] ''nonexistent'' \<and>
   Record_getitem [''__class__''] \<lparr>r_fields = [''x''], r_values = [1::int]\<rparr>
     (String ''nonexistent'' :: real item) = Inl (AttributeError ''nonexistent'') \<and>
   Record_getitem [''__class__''] \<lparr>r_fields = [''x''], r_values = [1::int]\<rparr>
     (Other (5 / 2 :: real)) = Inl TypeError"
  using Record_lookup_failures [of "''nonexistent''" "\<lparr>r_fields = [''x''], r_values = [1::int]\<rparr>"
      "[''__class__'']" "5 / 2 :: real"]
  by (simp add: shadowed_def class_dict_def)

text \<open>
  C7 as stated fails: \<^verbatim>\<open>"__fields__"\<close> is not a field name of the record with the one
  field \<^verbatim>\<open>x\<close>, and \<^verbatim>\<open>record["__fields__"]\<close> returns the list of field names.
\<close>

theorem Record_unknown_name_counterexample:
  "''__fields__'' \<notin> set (r_fields \<lparr>r_fields = [''x''], r_values = [1::int]\<rparr>) \<and>
   Record_getitem [] \<lparr>r_fields = [''x''], r_values = [1::int]\<rparr>
     (String ''__fields__'' :: real item) = Inr (FieldList [''x'']) \<and>
   Record_getitem [] \<lparr>r_fields = [''x''], r_values = [1::int]\<rparr>
     (String ''__fields__'' :: real item) \<noteq> Inl (AttributeError ''__fields__'')"
  by (simp add: Record_getitem_def py_getattr_def instance_dict_def)

text \<open>
  For a \<^verbatim>\<open>Record\<close> whose field names are unique, and a position \<open>i\<close> within range whose
  field name \<open>n = fields[i]\<close> is not the name of an attribute the object already has,
  \<^verbatim>\<open>record[i]\<close>, \<^verbatim>\<open>record[n]\<close> and \<^verbatim>\<open>record.n\<close> all return \<open>values[i]\<close>.
\<close>

lemma Record_lookups_agree:
  assumes "distinct (r_fields self)"
    and "i < length (r_fields self)" and "i < length (r_values self)"
    and "\<not> shadowed base (r_fields self ! i)"
  shows "Record_getitem base self (Integer (int i) :: 'o item) = Inr (Value (r_values self ! i)) \<and>
         Record_getitem base self (String (r_fields self ! i) :: 'o item)
           = Inr (Value (r_values self ! i)) \<and>
         py_getattr base self (r_fields self ! i) = Inr (Value (r_values self ! i))"
  using assms
  by (simp add: Record_getitem_def getitem_nat py_getattr_unshadowed Record_getattr_field)

text \<open>
  C8, at the input where the code departs from it. For every \<^verbatim>\<open>Record\<close> with unique
  field names and every position \<open>i\<close> within range, \<^verbatim>\<open>record[i]\<close>, \<^verbatim>\<open>record[n]\<close> with
  \<open>n = fields[i]\<close> and \<^verbatim>\<open>record.n\<close> should all return \<open>values[i]\<close>. The record with the single
  field \<^verbatim>\<open>__values__\<close> and the value 1 has unique field names, and all three lookups at
  position 0 return the whole tuple of values, not the value 1.
\<close>

theorem Record_lookups_shadowed:
  "distinct (r_fields \<lparr>r_fields = [''__values__''], r_values = [1::int]\<rparr>) \<and>
   Record_getitem [] \<lparr>r_fields = [''__values__''], r_values = [1::int]\<rparr>
     (Integer 0 :: real item) = Inr (ValueTuple [1]) \<and>
   Record_getitem [] \<lparr>r_fields = [''__values__''], r_values = [1::int]\<rparr>
     (String ''__values__'' :: real item) = Inr (ValueTuple [1]) \<and>
   py_getattr [] \<lparr>r_fields = [''__values__''], r_values = [1::int]\<rparr> ''__values__''
     = Inr (ValueTuple [1]) \<and>
   Inr (ValueTuple [1])
     \<noteq> (Inr (Value (r_values \<lparr>r_fields = [''__values__''], r_values = [1::int]\<rparr> ! 0))
          :: error + int attribute)"
  by (simp add: Record_getitem_def py_getattr_def instance_dict_def getitem_def)

text \<open>
  A negative position \<open>-k\<close> with \<open>1 \<le> k \<le> n\<close> reads the field at position \<open>n - k\<close>, as long
  as the name of that field is not the name of an attribute the object already has.
\<close>

lemma Record_negative_index:
  assumes "distinct (r_fields self)" and "length (r_values self) = length (r_fields self)"
    and "1 \<le> k" and "k \<le> length (r_fields self)"
    and "\<not> shadowed base (r_fields self ! (length (r_fields self) - k))"
  shows "Record_getitem base self (Integer (- int k) :: 'o item)
           = Inr (Value (r_values self ! (length (r_fields self) - k)))"
  using assms
  by (simp add: Record_getitem_def getitem_negative py_getattr_unshadowed Record_getattr_field)

text \<open>
  C10, at the input where the code departs from it: the record with the fields \<^verbatim>\<open>a\<close> and
  \<^verbatim>\<open>__values__\<close> and the values 1 and 2 has unique field names and as many values as
  fields, and \<^verbatim>\<open>record[-1]\<close> returns the whole tuple \<open>(1, 2)\<close> instead of the value 2 of
  the last field.
\<close>

theorem Record_negative_index_shadowed:
  "distinct (r_fields \<lparr>r_fields = [''a'', ''__values__''], r_values = [1::int, 2]\<rparr>) \<and>
   length (r_values \<lparr>r_fields = [''a'', ''__values__''], r_values = [1::int, 2]\<rparr>) = 2 \<and>
   Record_getitem [] \<lparr>r_fields = [''a'', ''__values__''], r_values = [1::int, 2]\<rparr>
     (Integer (- 1) :: real item) = Inr (ValueTuple [1, 2]) \<and>
   Record_getitem [] \<lparr>r_fields = [''a'', ''__values__''], r_values = [1::int, 2]\<rparr>
     (Integer (- 1) :: real item) \<noteq> Inr (Value 2)"
  by (simp add: Record_getitem_def py_getattr_def instance_dict_def getitem_def)

subsection \<open>The receive loop\<close>

text \<open>
  The loop on a connection whose first pending response is the target: record messages
  are passed on until the first summary message, which ends the loop.
\<close>

lemma fetch_loop_terminal:
  "target \<notin> set (responses (conn f)) \<Longrightarrow>
   fetch_loop clock hydrated k target ms f = (Inr (), f\<lparr>conn := (conn f)\<lparr>inbox := ms\<rparr>\<rparr>)"
  by (cases ms) simp_all

text \<open>Every list of messages is a run of record messages, alone or up to a first summary message.\<close>

lemma shapes:
  "(\<exists>pre. ms = map RECORD pre) \<or>
   (\<exists>pre md rest. ms = map RECORD pre @ SUCCESS md # rest) \<or>
   (\<exists>pre md rest. ms = map RECORD pre @ FAILURE md # rest)"
proof (induction ms)
  case Nil
  have "[] = map RECORD []" by simp
  then show ?case by (rule_tac disjI1) (rule exI)
next
  case (Cons m ms)
  show ?case
  proof (cases m)
    case (SUCCESS md)
    then have "m # ms = map RECORD [] @ SUCCESS md # ms" by simp
    then show ?thesis by (intro disjI2 disjI1 exI)
  next
    case (RECORD vs)
    from Cons.IH consider
        (a) pre where "ms = map RECORD pre"
      | (b) pre md rest where "ms = map RECORD pre @ SUCCESS md # rest"
      | (c) pre md rest where "ms = map RECORD pre @ FAILURE md # rest"
      by blast
    then show ?thesis
    proof cases
      case a
      with RECORD have "m # ms = map RECORD (vs # pre)" by simp
      then show ?thesis by (intro disjI1 exI)
    next
      case b
      with RECORD have "m # ms = map RECORD (vs # pre) @ SUCCESS md # rest" by simp
      then show ?thesis by (intro disjI2 disjI1 exI)
    next
      case c
      with RECORD have "m # ms = map RECORD (vs # pre) @ FAILURE md # rest" by simp
      then show ?thesis by (intro disjI2 exI)
    qed
  next
    case (FAILURE md)
    then have "m # ms = map RECORD [] @ FAILURE md # ms" by simp
    then show ?thesis by (intro disjI2 exI)
  qed
qed

lemma fetch_run_success:
  assumes "responses (conn f) = RunResponse k # ps" and "RunResponse k \<notin> set ps"
    and "map_of md ''fields'' = Some names"
  shows "fetch_loop clock hydrated k (RunResponse k) (map RECORD pre @ SUCCESS md # rest) f =
           (Inr (), f\<lparr>field_names := field_names f @ names,
                      records := map (\<lambda>r. r\<lparr>r_fields := field_names f @ names\<rparr>) (records f),
                      bench := (bench f)\<lparr>start_recv := Some (clock (ticks f))\<rparr>,
                      ticks := Suc (ticks f),
                      conn := (conn f)\<lparr>responses := ps, inbox := rest\<rparr>\<rparr>)"
  using assms
  by (induction pre) (simp_all add: deliver_def on_header_def fetch_loop_terminal)

lemma fetch_run_failure:
  assumes "responses (conn f) = RunResponse k # ps"
  shows "fetch_loop clock hydrated k (RunResponse k) (map RECORD pre @ FAILURE md # rest) f =
           (Inl (CypherError ''FAILURE''), f\<lparr>conn := (conn f)\<lparr>responses := ps, inbox := rest\<rparr>\<rparr>)"
  using assms
  by (induction pre) (simp_all add: deliver_def on_failure_def)

lemma fetch_run_keyerror:
  assumes "responses (conn f) = RunResponse k # ps" and "map_of md ''fields'' = None"
  shows "fetch_loop clock hydrated k (RunResponse k) (map RECORD pre @ SUCCESS md # rest) f =
           (Inl (KeyError ''fields''), f\<lparr>conn := (conn f)\<lparr>responses := ps, inbox := rest\<rparr>\<rparr>)"
  using assms
  by (induction pre) (simp_all add: deliver_def on_header_def)

lemma fetch_run_blocked:
  assumes "responses (conn f) = RunResponse k # ps"
  shows "fetch_loop clock hydrated k (RunResponse k) (map RECORD pre) f =
           (Inl Blocked, f\<lparr>conn := (conn f)\<lparr>inbox := []\<rparr>\<rparr>)"
  using assms
  by (induction pre) (simp_all add: deliver_def)

lemma fetch_pull_success:
  assumes "responses (conn f) = PullAllResponse k # ps" and "PullAllResponse k \<notin> set ps"
  shows "fetch_loop clock hydrated k (PullAllResponse k) (map RECORD vss @ SUCCESS md # rest) f =
           (Inr (), f\<lparr>records := records f @
                        map (\<lambda>vs. \<lparr>r_fields = field_names f, r_values = map hydrated vs\<rparr>) vss,
                      bench := (bench f)\<lparr>end_recv := Some (clock (ticks f))\<rparr>,
                      ticks := Suc (ticks f),
                      conn := (conn f)\<lparr>responses := ps, inbox := rest\<rparr>\<rparr>)"
  using assms
proof (induction vss arbitrary: f)
  case Nil
  then show ?case by (simp add: deliver_def on_footer_def fetch_loop_terminal)
next
  case (Cons vs vss)
  have "fetch_loop clock hydrated k (PullAllResponse k) (map RECORD (vs # vss) @ SUCCESS md # rest) f =
        fetch_loop clock hydrated k (PullAllResponse k) (map RECORD vss @ SUCCESS md # rest) (on_record hydrated vs f)"
    using Cons.prems by (simp add: deliver_def)
  also have "\<dots> = (Inr (), (on_record hydrated vs f)\<lparr>records := records (on_record hydrated vs f) @
                        map (\<lambda>vs. \<lparr>r_fields = field_names (on_record hydrated vs f), r_values = map hydrated vs\<rparr>) vss,
                      bench := (bench (on_record hydrated vs f))\<lparr>end_recv := Some (clock (ticks (on_record hydrated vs f)))\<rparr>,
                      ticks := Suc (ticks (on_record hydrated vs f)),
                      conn := (conn (on_record hydrated vs f))\<lparr>responses := ps, inbox := rest\<rparr>\<rparr>)"
    using Cons.IH [of "on_record hydrated vs f"] Cons.prems by (simp add: on_record_def)
  finally show ?case by (simp add: on_record_def)
qed

lemma fetch_pull_failure:
  assumes "responses (conn f) = PullAllResponse k # ps"
  shows "\<exists>f'. fetch_loop clock hydrated k (PullAllResponse k) (map RECORD vss @ FAILURE md # rest) f =
           (Inl (CypherError ''FAILURE''), f') \<and>
           conn f' = (conn f)\<lparr>responses := ps, inbox := rest\<rparr> \<and> ticks f' = ticks f"
  using assms
proof (induction vss arbitrary: f)
  case Nil
  then show ?case by (simp add: deliver_def on_failure_def)
next
  case (Cons vs vss)
  have "fetch_loop clock hydrated k (PullAllResponse k) (map RECORD (vs # vss) @ FAILURE md # rest) f =
        fetch_loop clock hydrated k (PullAllResponse k) (map RECORD vss @ FAILURE md # rest) (on_record hydrated vs f)"
    using Cons.prems by (simp add: deliver_def)
  moreover have "responses (conn (on_record hydrated vs f)) = PullAllResponse k # ps"
    using Cons.prems by (simp add: on_record_def)
  ultimately show ?case
    using Cons.IH [of "on_record hydrated vs f"] by (simp add: on_record_def)
qed

lemma fetch_pull_blocked:
  assumes "responses (conn f) = PullAllResponse k # ps"
  shows "fst (fetch_loop clock hydrated k (PullAllResponse k) (map RECORD vss) f) = Inl Blocked"
  using assms
proof (induction vss arbitrary: f)
  case Nil
  then show ?case by simp
next
  case (Cons vs vss)
  have "fetch_loop clock hydrated k (PullAllResponse k) (map RECORD (vs # vss)) f =
        fetch_loop clock hydrated k (PullAllResponse k) (map RECORD vss) (on_record hydrated vs f)"
    using Cons.prems by (simp add: deliver_def)
  moreover have "responses (conn (on_record hydrated vs f)) = PullAllResponse k # ps"
    using Cons.prems by (simp add: on_record_def)
  ultimately show ?case
    using Cons.IH [of "on_record hydrated vs f"] by simp
qed

text \<open>
  The loop in any state: what it leaves untouched, which messages it consumes, and which
  exceptions can come out of it.
\<close>

lemma deliver_conn: "deliver clock hydrated k r m f = Inr f' \<Longrightarrow> conn f' = conn f"
  by (auto simp: deliver_def on_header_def earlier_on_header_def on_footer_def
      earlier_on_footer_def on_record_def
      split: message.splits response.splits if_splits option.splits)

lemma deliver_error:
  "deliver clock hydrated k r m f = Inl e \<Longrightarrow>
     (\<exists>md. m = FAILURE md \<and> e = CypherError ''FAILURE'') \<or>
     (\<exists>md. m = SUCCESS md \<and> e = KeyError ''fields'')"
  by (auto simp: deliver_def on_header_def earlier_on_header_def on_failure_def
      split: message.splits response.splits if_splits option.splits)

lemma deliver_failure: "deliver clock hydrated k r (FAILURE md) f = Inl (CypherError ''FAILURE'')"
  by (simp add: deliver_def on_failure_def)

lemma fetch_loop_frame:
  "fetch_loop clock hydrated k target ms f = (res, f') \<Longrightarrow>
     trace (conn f') = trace (conn f) \<and> outbox (conn f') = outbox (conn f) \<and>
     wire (conn f') = wire (conn f) \<and>
     set (responses (conn f')) \<subseteq> set (responses (conn f)) \<and>
     (res = Inr () \<longrightarrow> target \<notin> set (responses (conn f')))"
proof (induction ms arbitrary: f)
  case Nil
  then show ?case by (auto split: if_splits)
next
  case (Cons m ms)
  show ?case
  proof (cases "target \<in> set (responses (conn f))")
    case False
    with Cons.prems show ?thesis by auto
  next
    case True
    define g where "g = (if summary m
                   then f\<lparr>conn := (conn f)\<lparr>responses := tl (responses (conn f))\<rparr>\<rparr>
                   else f)"
    have g: "trace (conn g) = trace (conn f)" "outbox (conn g) = outbox (conn f)"
      "wire (conn g) = wire (conn f)" "set (responses (conn g)) \<subseteq> set (responses (conn f))"
      by (cases "responses (conn f)"; auto simp: g_def)+
    show ?thesis
    proof (cases "deliver clock hydrated k (hd (responses (conn f))) m g")
      case (Inl e)
      with True Cons.prems have "res = Inl e" "f' = g\<lparr>conn := (conn g)\<lparr>inbox := ms\<rparr>\<rparr>"
        by (simp_all add: g_def Let_def)
      with g show ?thesis by simp
    next
      case (Inr h)
      with True Cons.prems have "fetch_loop clock hydrated k target ms h = (res, f')"
        by (simp add: g_def Let_def)
      from Cons.IH [OF this] deliver_conn [OF Inr] g show ?thesis by auto
    qed
  qed
qed

lemma fetch_loop_consumed:
  "fetch_loop clock hydrated k target ms f = (res, f') \<Longrightarrow>
     \<exists>consumed. ms = consumed @ inbox (conn f') \<and>
       (\<forall>md. FAILURE md \<in> set consumed \<longrightarrow>
          res = Inl (CypherError ''FAILURE'') \<and> consumed \<noteq> [] \<and> last consumed = FAILURE md)"
proof (induction ms arbitrary: f)
  case Nil
  then show ?case by (auto split: if_splits)
next
  case (Cons m ms)
  show ?case
  proof (cases "target \<in> set (responses (conn f))")
    case False
    with Cons.prems have "inbox (conn f') = m # ms" by auto
    then have "m # ms = [] @ inbox (conn f')" by simp
    then show ?thesis by fastforce
  next
    case True
    define g where "g = (if summary m
                   then f\<lparr>conn := (conn f)\<lparr>responses := tl (responses (conn f))\<rparr>\<rparr>
                   else f)"
    show ?thesis
    proof (cases "deliver clock hydrated k (hd (responses (conn f))) m g")
      case (Inl e)
      with True Cons.prems have *: "res = Inl e" "f' = g\<lparr>conn := (conn g)\<lparr>inbox := ms\<rparr>\<rparr>"
        by (simp_all add: g_def Let_def)
      then have "m # ms = [m] @ inbox (conn f')" by simp
      moreover have "\<forall>md. FAILURE md \<in> set [m] \<longrightarrow>
          res = Inl (CypherError ''FAILURE'') \<and> [m] \<noteq> [] \<and> last [m] = FAILURE md"
        using Inl * by (auto simp: deliver_failure)
      ultimately show ?thesis by blast
    next
      case (Inr h)
      with True Cons.prems have "fetch_loop clock hydrated k target ms h = (res, f')"
        by (simp add: g_def Let_def)
      from Cons.IH [OF this] obtain consumed where c: "ms = consumed @ inbox (conn f')"
        "\<forall>md. FAILURE md \<in> set consumed \<longrightarrow>
          res = Inl (CypherError ''FAILURE'') \<and> consumed \<noteq> [] \<and> last consumed = FAILURE md"
        by blast
      from Inr have "\<And>md. m \<noteq> FAILURE md" by (auto simp: deliver_failure)
      with c have "m # ms = (m # consumed) @ inbox (conn f')"
        "\<forall>md. FAILURE md \<in> set (m # consumed) \<longrightarrow>
          res = Inl (CypherError ''FAILURE'') \<and> m # consumed \<noteq> [] \<and> last (m # consumed) = FAILURE md"
        by auto
      then show ?thesis by blast
    qed
  qed
qed

lemma fetch_loop_error:
  "fetch_loop clock hydrated k target ms f = (Inl e, f') \<Longrightarrow>
     e = CypherError ''FAILURE'' \<or> e = KeyError ''fields'' \<or> e = Blocked"
proof (induction ms arbitrary: f)
  case Nil
  then show ?case by (auto split: if_splits)
next
  case (Cons m ms)
  show ?case
  proof (cases "target \<in> set (responses (conn f))")
    case False
    with Cons.prems show ?thesis by auto
  next
    case True
    define g where "g = (if summary m
                   then f\<lparr>conn := (conn f)\<lparr>responses := tl (responses (conn f))\<rparr>\<rparr>
                   else f)"
    show ?thesis
    proof (cases "deliver clock hydrated k (hd (responses (conn f))) m g")
      case (Inl e')
      with True Cons.prems have "e = e'"
        by (simp add: g_def Let_def)
      with deliver_error [OF Inl] show ?thesis by auto
    next
      case (Inr h)
      with True Cons.prems have "fetch_loop clock hydrated k target ms h = (Inl e, f')"
        by (simp add: g_def Let_def)
      from Cons.IH [OF this] show ?thesis .
    qed
  qed
qed

lemma deliver_earlier:
  "response_call r \<noteq> k \<Longrightarrow> deliver clock hydrated k r m f = Inr h \<Longrightarrow>
     conn h = conn f \<and> field_names h = field_names f \<and> records h = records f \<and>
     bench h = bench f \<and> ticks f \<le> ticks h \<and> (\<forall>md. m \<noteq> FAILURE md)"
  by (cases r; cases m)
    (auto simp: deliver_def earlier_on_header_def earlier_on_footer_def on_failure_def
      split: option.splits)

text \<open>
  When the loop on the run-response returns, the responses pending before it have each
  received a success message, and the next success message is the header.
\<close>

lemma fetch_run_general:
  assumes "fetch_loop clock hydrated k (RunResponse k) ms f = (Inr (), f')"
    and "responses (conn f) = old @ RunResponse k # ps"
    and "\<forall>r\<in>set old. response_call r \<noteq> k"
    and "RunResponse k \<notin> set ps"
  shows "\<exists>skipped md names n.
           ms = skipped @ SUCCESS md # inbox (conn f') \<and>
           (\<forall>md'. FAILURE md' \<notin> set skipped) \<and>
           length (filter summary skipped) = length old \<and>
           map_of md ''fields'' = Some names \<and>
           field_names f' = field_names f @ names \<and>
           records f' = map (\<lambda>r. r\<lparr>r_fields := field_names f @ names\<rparr>) (records f) \<and>
           bench f' = (bench f)\<lparr>start_recv := Some (clock n)\<rparr> \<and>
           ticks f \<le> n \<and> ticks f' = Suc n \<and> responses (conn f') = ps"
  using assms
proof (induction ms arbitrary: f old)
  case Nil
  then show ?case by simp
next
  case (Cons m ms)
  let ?R = "RunResponse k"
  have pending: "?R \<in> set (responses (conn f))"
    using Cons.prems(2) by simp
  define g where "g = (if summary m
                   then f\<lparr>conn := (conn f)\<lparr>responses := tl (responses (conn f))\<rparr>\<rparr>
                   else f)"
  obtain h where h: "deliver clock hydrated k (hd (responses (conn f))) m g = Inr h"
    and loop: "fetch_loop clock hydrated k ?R ms h = (Inr (), f')"
    using Cons.prems(1) pending
    by (cases "deliver clock hydrated k (hd (responses (conn f))) m g")
      (simp_all add: g_def Let_def)
  show ?case
  proof (cases old)
    case Nil
    then have hd: "hd (responses (conn f)) = ?R" and tl: "tl (responses (conn f)) = ps"
      using Cons.prems(2) by simp_all
    show ?thesis
    proof (cases m)
      case (SUCCESS md)
      with h hd obtain names where names: "map_of md ''fields'' = Some names"
        and h_eq: "h = g\<lparr>field_names := field_names g @ names,
                 records := map (\<lambda>r. r\<lparr>r_fields := field_names g @ names\<rparr>) (records g),
                 bench := (bench g)\<lparr>start_recv := Some (clock (ticks g))\<rparr>,
                 ticks := Suc (ticks g)\<rparr>"
        by (auto simp: deliver_def on_header_def split: option.splits)
      from SUCCESS tl have g_eq: "g = f\<lparr>conn := (conn f)\<lparr>responses := ps\<rparr>\<rparr>"
        by (simp add: g_def)
      have "?R \<notin> set (responses (conn h))"
        using Cons.prems(4) by (simp add: h_eq g_eq)
      from fetch_loop_terminal [OF this] loop
      have f': "f' = h\<lparr>conn := (conn h)\<lparr>inbox := ms\<rparr>\<rparr>" by simp
      have "m # ms = [] @ SUCCESS md # inbox (conn f')"
        using SUCCESS by (simp add: f')
      moreover have "length (filter summary []) = length old"
        using Nil by simp
      moreover have "field_names f' = field_names f @ names"
        "records f' = map (\<lambda>r. r\<lparr>r_fields := field_names f @ names\<rparr>) (records f)"
        "bench f' = (bench f)\<lparr>start_recv := Some (clock (ticks f))\<rparr>"
        "ticks f' = Suc (ticks f)" "responses (conn f') = ps"
        by (simp_all add: f' h_eq g_eq)
      ultimately show ?thesis using names
        by (intro exI [of _ "[]"] exI [of _ md] exI [of _ names] exI [of _ "ticks f"]) simp
    next
      case (RECORD vs)
      with h hd have "h = f" by (simp add: deliver_def g_def)
      with loop Cons.IH [of f old] Cons.prems(2,3,4)
      obtain skipped md names n where *:
        "ms = skipped @ SUCCESS md # inbox (conn f')"
        "\<forall>md'. FAILURE md' \<notin> set skipped"
        "length (filter summary skipped) = length old"
        "map_of md ''fields'' = Some names"
        "field_names f' = field_names f @ names"
        "records f' = map (\<lambda>r. r\<lparr>r_fields := field_names f @ names\<rparr>) (records f)"
        "bench f' = (bench f)\<lparr>start_recv := Some (clock n)\<rparr>"
        "ticks f \<le> n" "ticks f' = Suc n" "responses (conn f') = ps"
        by blast
      show ?thesis
        using * RECORD
        by (intro exI [of _ "m # skipped"] exI [of _ md] exI [of _ names] exI [of _ n]) simp
    next
      case (FAILURE md)
      with h show ?thesis by (simp add: deliver_def)
    qed
  next
    case (Cons r old')
    then have hd: "hd (responses (conn f)) = r"
      and tl: "tl (responses (conn f)) = old' @ ?R # ps"
      and r: "response_call r \<noteq> k" and old': "\<forall>r\<in>set old'. response_call r \<noteq> k"
      using Cons.prems(2,3) by simp_all
    from deliver_earlier [OF r h [unfolded hd]]
    have hg: "conn h = conn g" "field_names h = field_names g" "records h = records g"
      "bench h = bench g" "ticks g \<le> ticks h" and not_failure: "\<And>md. m \<noteq> FAILURE md"
      by simp_all
    show ?thesis
    proof (cases "summary m")
      case True
      then have "responses (conn h) = old' @ ?R # ps"
        using hg(1) tl by (simp add: g_def)
      from Cons.IH [OF loop this old' Cons.prems(4)]
      obtain skipped md names n where *:
        "ms = skipped @ SUCCESS md # inbox (conn f')"
        "\<forall>md'. FAILURE md' \<notin> set skipped"
        "length (filter summary skipped) = length old'"
        "map_of md ''fields'' = Some names"
        "field_names f' = field_names h @ names"
        "records f' = map (\<lambda>r. r\<lparr>r_fields := field_names h @ names\<rparr>) (records h)"
        "bench f' = (bench h)\<lparr>start_recv := Some (clock n)\<rparr>"
        "ticks h \<le> n" "ticks f' = Suc n" "responses (conn f') = ps"
        by blast
      have gf: "field_names g = field_names f" "records g = records f" "bench g = bench f"
        "ticks g = ticks f"
        by (simp_all add: g_def)
      show ?thesis
        using * True not_failure hg gf Cons
        by (intro exI [of _ "m # skipped"] exI [of _ md] exI [of _ names] exI [of _ n]) auto
    next
      case False
      then have gf: "g = f" by (simp add: g_def)
      then have "responses (conn h) = old @ ?R # ps"
        using hg(1) Cons.prems(2) by simp
      from Cons.IH [OF loop this Cons.prems(3,4)]
      obtain skipped md names n where *:
        "ms = skipped @ SUCCESS md # inbox (conn f')"
        "\<forall>md'. FAILURE md' \<notin> set skipped"
        "length (filter summary skipped) = length old"
        "map_of md ''fields'' = Some names"
        "field_names f' = field_names h @ names"
        "records f' = map (\<lambda>r. r\<lparr>r_fields := field_names h @ names\<rparr>) (records h)"
        "bench f' = (bench h)\<lparr>start_recv := Some (clock n)\<rparr>"
        "ticks h \<le> n" "ticks f' = Suc n" "responses (conn f') = ps"
        by blast
      show ?thesis
        using * False not_failure hg gf
        by (intro exI [of _ "m # skipped"] exI [of _ md] exI [of _ names] exI [of _ n]) auto
    qed
  qed
qed

lemma fetch_pull_general:
  assumes "fetch_loop clock hydrated k (PullAllResponse k) ms f = (Inr (), f')"
    and "responses (conn f) = PullAllResponse k # ps"
    and "PullAllResponse k \<notin> set ps"
  shows "\<exists>rows md.
           ms = map RECORD rows @ SUCCESS md # inbox (conn f') \<and>
           records f' = records f @
             map (\<lambda>vs. \<lparr>r_fields = field_names f, r_values = map hydrated vs\<rparr>) rows \<and>
           bench f' = (bench f)\<lparr>end_recv := Some (clock (ticks f))\<rparr> \<and>
           ticks f' = Suc (ticks f) \<and> responses (conn f') = ps \<and>
           field_names f' = field_names f"
proof -
  from shapes [of ms] consider
      (blocked) rows where "ms = map RECORD rows"
    | (success) rows md rest where "ms = map RECORD rows @ SUCCESS md # rest"
    | (failure) rows md rest where "ms = map RECORD rows @ FAILURE md # rest"
    by blast
  then show ?thesis
  proof cases
    case blocked
    with fetch_pull_blocked [OF assms(2), of clock hydrated rows] assms(1)
    show ?thesis by simp
  next
    case success
    with fetch_pull_success [OF assms(2,3), of clock hydrated rows md rest] assms(1)
    have "f' = f\<lparr>records := records f @
                        map (\<lambda>vs. \<lparr>r_fields = field_names f, r_values = map hydrated vs\<rparr>) rows,
                      bench := (bench f)\<lparr>end_recv := Some (clock (ticks f))\<rparr>,
                      ticks := Suc (ticks f),
                      conn := (conn f)\<lparr>responses := ps, inbox := rest\<rparr>\<rparr>"
      by simp
    with success show ?thesis
      by (intro exI [of _ rows] exI [of _ md]) simp
  next
    case failure
    with fetch_pull_failure [OF assms(2), of clock hydrated rows md rest] assms(1)
    show ?thesis by auto
  qed
qed

lemma consume_frame:
  assumes "consume clock hydrated k target f = (res, f')"
  shows "trace (conn f') =
           trace (conn f) @ ConsumeBegin target # (case res of Inl e \<Rightarrow> [] | Inr u \<Rightarrow> [ConsumeEnd target])"
    and "outbox (conn f') = outbox (conn f)" and "wire (conn f') = wire (conn f)"
    and "set (responses (conn f')) \<subseteq> set (responses (conn f))"
    and "res = Inr () \<Longrightarrow> target \<notin> set (responses (conn f'))"
    and "res = Inl e \<Longrightarrow> e = CypherError ''FAILURE'' \<or> e = KeyError ''fields'' \<or> e = Blocked"
    and "\<exists>consumed. inbox (conn f) = consumed @ inbox (conn f') \<and>
           (\<forall>md. FAILURE md \<in> set consumed \<longrightarrow>
              res = Inl (CypherError ''FAILURE'') \<and> consumed \<noteq> [] \<and> last consumed = FAILURE md)"
proof -
  define f1 where "f1 = f\<lparr>conn := (conn f)\<lparr>trace := trace (conn f) @ [ConsumeBegin target]\<rparr>\<rparr>"
  obtain r g where loop: "fetch_loop clock hydrated k target (inbox (conn f)) f1 = (r, g)"
    by (cases "fetch_loop clock hydrated k target (inbox (conn f)) f1")
  have f1: "inbox (conn f1) = inbox (conn f)" "trace (conn f1) = trace (conn f) @ [ConsumeBegin target]"
    "outbox (conn f1) = outbox (conn f)" "wire (conn f1) = wire (conn f)"
    "responses (conn f1) = responses (conn f)"
    by (simp_all add: f1_def)
  have res: "res = r"
    and f': "f' = (case r of Inl e \<Rightarrow> g
                   | Inr u \<Rightarrow> g\<lparr>conn := (conn g)\<lparr>trace := trace (conn g) @ [ConsumeEnd target]\<rparr>\<rparr>)"
    using assms loop by (auto simp: consume_def Let_def f1_def split: sum.splits)
  note frame = fetch_loop_frame [OF loop]
  show "trace (conn f') =
           trace (conn f) @ ConsumeBegin target # (case res of Inl e \<Rightarrow> [] | Inr u \<Rightarrow> [ConsumeEnd target])"
    using frame f1 by (simp add: res f' split: sum.splits)
  show "outbox (conn f') = outbox (conn f)" "wire (conn f') = wire (conn f)"
    using frame f1 by (simp_all add: f' split: sum.splits)
  show "set (responses (conn f')) \<subseteq> set (responses (conn f))"
    using frame f1 by (simp add: f' split: sum.splits)
  show "res = Inr () \<Longrightarrow> target \<notin> set (responses (conn f'))"
    using frame by (simp add: res f')
  show "res = Inl e \<Longrightarrow> e = CypherError ''FAILURE'' \<or> e = KeyError ''fields'' \<or> e = Blocked"
    using fetch_loop_error [of clock hydrated k target "inbox (conn f)" f1 e g] loop
    by (simp add: res)
  have "inbox (conn f') = inbox (conn g)"
    by (simp add: f' split: sum.splits)
  with fetch_loop_consumed [OF loop]
  show "\<exists>consumed. inbox (conn f) = consumed @ inbox (conn f') \<and>
           (\<forall>md. FAILURE md \<in> set consumed \<longrightarrow>
              res = Inl (CypherError ''FAILURE'') \<and> consumed \<noteq> [] \<and> last consumed = FAILURE md)"
    by (simp add: res)
qed

lemma consume_returns:
  assumes "consume clock hydrated k target f = (Inr u, f')"
  shows "\<exists>g. fetch_loop clock hydrated k target (inbox (conn f))
               (f\<lparr>conn := (conn f)\<lparr>trace := trace (conn f) @ [ConsumeBegin target]\<rparr>\<rparr>) = (Inr (), g) \<and>
             f' = g\<lparr>conn := (conn g)\<lparr>trace := trace (conn g) @ [ConsumeEnd target]\<rparr>\<rparr>"
  using assms by (auto simp: consume_def Let_def split: prod.splits sum.splits)

subsection \<open>Session.run\<close>

text \<open>A call of \<^verbatim>\<open>run\<close> ends in one of three ways.\<close>

lemma run_unfold:
  "run clock hydrated self statement parameters =
     (case consume clock hydrated (objects self) (RunResponse (objects self))
             (requested clock self statement parameters) of
        (Inl e, f7) \<Rightarrow> (Inl e, leave self f7)
      | (Inr u, f7) \<Rightarrow>
          (case consume clock hydrated (objects self) (PullAllResponse (objects self)) f7 of
             (Inl e, f8) \<Rightarrow> (Inl e, leave self f8)
           | (Inr u, f8) \<Rightarrow>
               (Inr (records (stamp clock done_t_update f8)),
                (leave self (stamp clock done_t_update f8))
                  \<lparr>bench_tests := bench_tests self @ [bench (stamp clock done_t_update f8)]\<rparr>)))"
  by (simp only: run_def requested_def Let_def)

lemma requested_eq:
  "requested clock self statement parameters =
     \<lparr>conn = (connection self)
        \<lparr>outbox := [],
         wire := wire (connection self) @ outbox (connection self) @
           [(RUN, Some (statement, case parameters of None \<Rightarrow> [] | Some d \<Rightarrow> d)), (PULL_ALL, None)],
         responses := responses (connection self) @
           [RunResponse (objects self), PullAllResponse (objects self)],
         trace := trace (connection self) @
           [Append RUN (Some (statement, case parameters of None \<Rightarrow> [] | Some d \<Rightarrow> d))
              (RunResponse (objects self)),
            Append PULL_ALL None (PullAllResponse (objects self)), Send]\<rparr>,
      ticks = clock_reads self + 3,
      field_names = [], records = [],
      bench = \<lparr>init = Some (clock (clock_reads self)),
               start_send = Some (clock (Suc (clock_reads self))),
               end_send = Some (clock (Suc (Suc (clock_reads self)))),
               start_recv = None, end_recv = None, done_t = None\<rparr>\<rparr>"
  by (simp add: requested_def stamp_def append_request_def send_def BenchTest_new_def Let_def)

lemma run_cases:
  assumes "run clock hydrated self statement parameters = (res, self')"
  obtains
    (run_raised) e f7 where
      "consume clock hydrated (objects self) (RunResponse (objects self))
         (requested clock self statement parameters) = (Inl e, f7)"
      "res = Inl e" "self' = leave self f7"
  | (pull_raised) e f7 f8 where
      "consume clock hydrated (objects self) (RunResponse (objects self))
         (requested clock self statement parameters) = (Inr (), f7)"
      "consume clock hydrated (objects self) (PullAllResponse (objects self)) f7 = (Inl e, f8)"
      "res = Inl e" "self' = leave self f8"
  | (returned) f7 f8 where
      "consume clock hydrated (objects self) (RunResponse (objects self))
         (requested clock self statement parameters) = (Inr (), f7)"
      "consume clock hydrated (objects self) (PullAllResponse (objects self)) f7 = (Inr (), f8)"
      "res = Inr (records f8)"
      "self' = (leave self (stamp clock done_t_update f8))
                 \<lparr>bench_tests := bench_tests self @ [bench (stamp clock done_t_update f8)]\<rparr>"
  using assms
  by (auto simp: run_unfold stamp_def split: prod.splits sum.splits)

lemma requested_conn:
  "outbox (conn (requested clock self statement parameters)) = []"
  "wire (conn (requested clock self statement parameters)) =
     wire (connection self) @ outbox (connection self) @
       [(RUN, Some (statement, case parameters of None \<Rightarrow> [] | Some d \<Rightarrow> d)), (PULL_ALL, None)]"
  "responses (conn (requested clock self statement parameters)) =
     responses (connection self) @ [RunResponse (objects self), PullAllResponse (objects self)]"
  "inbox (conn (requested clock self statement parameters)) = inbox (connection self)"
  "trace (conn (requested clock self statement parameters)) =
     trace (connection self) @
       [Append RUN (Some (statement, case parameters of None \<Rightarrow> [] | Some d \<Rightarrow> d))
          (RunResponse (objects self)),
        Append PULL_ALL None (PullAllResponse (objects self)), Send]"
  by (simp_all add: requested_eq)

lemma requested_frame:
  "ticks (requested clock self statement parameters) = clock_reads self + 3"
  "field_names (requested clock self statement parameters) = []"
  "records (requested clock self statement parameters) = []"
  "bench (requested clock self statement parameters) =
     \<lparr>init = Some (clock (clock_reads self)),
      start_send = Some (clock (Suc (clock_reads self))),
      end_send = Some (clock (Suc (Suc (clock_reads self)))),
      start_recv = None, end_recv = None, done_t = None\<rparr>"
  by (simp_all add: requested_eq)

lemma leave_simps:
  "connection (leave self f) = conn f" "transaction (leave self f) = transaction self"
  "bench_tests (leave self f) = bench_tests self" "objects (leave self f) = Suc (objects self)"
  "clock_reads (leave self f) = ticks f"
  by (simp_all add: leave_def)

lemma stamp_simps:
  "conn (stamp clock upd f) = conn f" "records (stamp clock upd f) = records f"
  "ticks (stamp clock upd f) = Suc (ticks f)"
  by (simp_all add: stamp_def)

lemma run_consumes:
  assumes "run clock hydrated self statement parameters = (res, self')"
  shows "\<exists>consumed. inbox (connection self) = consumed @ inbox (connection self')"
  using assms
proof (cases rule: run_cases)
  case (run_raised e f7)
  from consume_frame(7) [OF run_raised(1)] show ?thesis
    by (auto simp: requested_conn run_raised(3) leave_simps)
next
  case (pull_raised e f7 f8)
  from consume_frame(7) [OF pull_raised(1)] consume_frame(7) [OF pull_raised(2)]
  obtain c1 c2 where "inbox (connection self) = c1 @ inbox (conn f7)"
    "inbox (conn f7) = c2 @ inbox (conn f8)"
    by (auto simp: requested_conn)
  then have "inbox (connection self) = (c1 @ c2) @ inbox (connection self')"
    by (simp add: pull_raised(4) leave_simps)
  then show ?thesis by blast
next
  case (returned f7 f8)
  from consume_frame(7) [OF returned(1)] consume_frame(7) [OF returned(2)]
  obtain c1 c2 where "inbox (connection self) = c1 @ inbox (conn f7)"
    "inbox (conn f7) = c2 @ inbox (conn f8)"
    by (auto simp: requested_conn)
  then have "inbox (connection self) = (c1 @ c2) @ inbox (connection self')"
    by (simp add: returned(4) leave_simps stamp_simps)
  then show ?thesis by blast
qed

lemma run_session:
  assumes "run clock hydrated self statement parameters = (res, self')"
  shows "transaction self' = transaction self" and "objects self' = Suc (objects self)"
    and "res = Inl e \<Longrightarrow>
           (e = CypherError ''FAILURE'' \<or> e = KeyError ''fields'' \<or> e = Blocked) \<and>
           bench_tests self' = bench_tests self"
    and "res = Inr rs \<Longrightarrow> \<exists>b. bench_tests self' = bench_tests self @ [b]"
  using assms
  by (cases rule: run_cases; (auto simp: leave_simps dest: consume_frame(6))[1])+

lemma run_fresh:
  assumes "run clock hydrated self statement parameters = (res, self')" and "fresh self"
  shows "fresh self'"
  using assms(1)
proof (cases rule: run_cases)
  case (run_raised e f7)
  from consume_frame(4) [OF run_raised(1)] assms(2) show ?thesis
    by (auto simp: fresh_def run_raised(3) leave_simps requested_conn less_Suc_eq
        dest!: subsetD)
next
  case (pull_raised e f7 f8)
  from consume_frame(4) [OF pull_raised(1)] consume_frame(4) [OF pull_raised(2)] assms(2)
  show ?thesis
    by (auto simp: fresh_def pull_raised(4) leave_simps requested_conn less_Suc_eq
        dest!: subsetD)
next
  case (returned f7 f8)
  from consume_frame(4) [OF returned(1)] consume_frame(4) [OF returned(2)] assms(2)
  show ?thesis
    by (auto simp: fresh_def returned(4) leave_simps stamp_simps requested_conn less_Suc_eq
        dest!: subsetD)
qed

text \<open>
  What a call of \<^verbatim>\<open>run\<close> that returns has received, returned and measured: the records,
  the six clock readings of its latency sample, and a connection with nothing pending.
\<close>

lemma run_returns:
  fixes hydrated :: "'r \<Rightarrow> 'v" and self :: "'r session"
  assumes "run clock hydrated self statement parameters = (Inr rs, self')" and "fresh self"
  shows "\<exists>skipped header names rows footer n.
           inbox (connection self) =
             skipped @ SUCCESS header # map RECORD rows @ SUCCESS footer # inbox (connection self') \<and>
           (\<forall>md. FAILURE md \<notin> set skipped) \<and>
           length (filter summary skipped) = length (responses (connection self)) \<and>
           map_of header ''fields'' = Some names \<and>
           rs = map (\<lambda>vs. \<lparr>r_fields = names, r_values = map hydrated vs\<rparr>) rows \<and>
           clock_reads self + 3 \<le> n \<and> clock_reads self' = n + 3 \<and>
           bench_tests self' = bench_tests self @
             [\<lparr>init = Some (clock (clock_reads self)),
               start_send = Some (clock (Suc (clock_reads self))),
               end_send = Some (clock (Suc (Suc (clock_reads self)))),
               start_recv = Some (clock n), end_recv = Some (clock (Suc n)),
               done_t = Some (clock (Suc (Suc n)))\<rparr>] \<and>
           responses (connection self') = []"
  using assms(1)
proof (cases rule: run_cases)
  case (run_raised e f7)
  then show ?thesis by simp
next
  case (pull_raised e f7 f8)
  then show ?thesis by simp
next
  case (returned f7 f8)
  let ?k = "objects self"
  let ?req = "requested clock self statement parameters :: ('r, 'v) frame"
  from consume_returns [OF returned(1)] obtain g7 where
    g7: "fetch_loop clock hydrated ?k (RunResponse ?k) (inbox (conn ?req))
           (?req\<lparr>conn := (conn ?req)\<lparr>trace := trace (conn ?req) @ [ConsumeBegin (RunResponse ?k)]\<rparr>\<rparr>)
         = (Inr (), g7)"
    and f7: "f7 = g7\<lparr>conn := (conn g7)\<lparr>trace := trace (conn g7) @ [ConsumeEnd (RunResponse ?k)]\<rparr>\<rparr>"
    by blast
  have old: "\<forall>r\<in>set (responses (connection self)). response_call r \<noteq> ?k"
    using assms(2) by (auto simp: fresh_def)
  from fetch_run_general [OF g7, of "responses (connection self)" "[PullAllResponse ?k]"] old
  obtain skipped header names n where run_phase:
    "inbox (connection self) = skipped @ SUCCESS header # inbox (conn g7)"
    "\<forall>md'. FAILURE md' \<notin> set skipped"
    "length (filter summary skipped) = length (responses (connection self))"
    "map_of header ''fields'' = Some names"
    "field_names g7 = names" "records g7 = []"
    "bench g7 = (bench ?req)\<lparr>start_recv := Some (clock n)\<rparr>"
    "clock_reads self + 3 \<le> n" "ticks g7 = Suc n" "responses (conn g7) = [PullAllResponse ?k]"
    by (auto simp: requested_conn requested_frame)
  from consume_returns [OF returned(2)] obtain g8 where
    g8: "fetch_loop clock hydrated ?k (PullAllResponse ?k) (inbox (conn f7))
           (f7\<lparr>conn := (conn f7)\<lparr>trace := trace (conn f7) @ [ConsumeBegin (PullAllResponse ?k)]\<rparr>\<rparr>)
         = (Inr (), g8)"
    and f8: "f8 = g8\<lparr>conn := (conn g8)\<lparr>trace := trace (conn g8) @ [ConsumeEnd (PullAllResponse ?k)]\<rparr>\<rparr>"
    by blast
  from fetch_pull_general [OF g8, of "[]"] run_phase(10)
  obtain rows footer where pull_phase:
    "inbox (conn f7) = map RECORD rows @ SUCCESS footer # inbox (conn g8)"
    "records g8 = map (\<lambda>vs. \<lparr>r_fields = names, r_values = map hydrated vs\<rparr>) rows"
    "bench g8 = (bench g7)\<lparr>end_recv := Some (clock (Suc n))\<rparr>"
    "ticks g8 = Suc (Suc n)" "responses (conn g8) = []"
    using run_phase(5,6,9) by (auto simp: f7)
  have "inbox (connection self) =
          skipped @ SUCCESS header # map RECORD rows @ SUCCESS footer # inbox (connection self')"
    using run_phase(1) pull_phase(1)
    by (simp add: f7 f8 returned(4) leave_simps stamp_simps)
  moreover have "rs = map (\<lambda>vs. \<lparr>r_fields = names, r_values = map hydrated vs\<rparr>) rows"
    using returned(3) pull_phase(2) by (simp add: f8)
  moreover have "clock_reads self' = n + 3"
    using pull_phase(4) by (simp add: returned(4) leave_simps stamp_simps f8)
  moreover have "bench_tests self' = bench_tests self @
             [\<lparr>init = Some (clock (clock_reads self)),
               start_send = Some (clock (Suc (clock_reads self))),
               end_send = Some (clock (Suc (Suc (clock_reads self)))),
               start_recv = Some (clock n), end_recv = Some (clock (Suc n)),
               done_t = Some (clock (Suc (Suc n)))\<rparr>]"
    using pull_phase(3,4) run_phase(7)
    by (simp add: returned(4) leave_simps f8 stamp_def requested_frame)
  moreover have "responses (connection self') = []"
    using pull_phase(5) by (simp add: returned(4) leave_simps stamp_simps f8)
  ultimately show ?thesis
    using run_phase(2,3,4,8) by blast
qed

text \<open>
  With a clock that never runs backwards, the latency sample of a call that returns has
  its six timestamps in the order \<open>init\<close>, \<open>start_send\<close>, \<open>end_send\<close>, \<open>start_recv\<close>,
  \<open>end_recv\<close>, \<open>done\<close>.
\<close>

lemma run_bench_ordered:
  assumes "run clock hydrated self statement parameters = (Inr rs, self')" and "fresh self"
    and "mono clock"
  shows "\<exists>b. bench_tests self' = bench_tests self @ [b] \<and> ordered b"
proof -
  from run_returns [OF assms(1,2)] obtain n where n: "clock_reads self + 3 \<le> n"
    and b: "bench_tests self' = bench_tests self @
             [\<lparr>init = Some (clock (clock_reads self)),
               start_send = Some (clock (Suc (clock_reads self))),
               end_send = Some (clock (Suc (Suc (clock_reads self)))),
               start_recv = Some (clock n), end_recv = Some (clock (Suc n)),
               done_t = Some (clock (Suc (Suc n)))\<rparr>]"
    by blast
  have "\<And>i j. i \<le> j \<Longrightarrow> clock i \<le> clock j"
    using assms(3) by (rule monoD)
  with n have "ordered \<lparr>init = Some (clock (clock_reads self)),
               start_send = Some (clock (Suc (clock_reads self))),
               end_send = Some (clock (Suc (Suc (clock_reads self)))),
               start_recv = Some (clock n), end_recv = Some (clock (Suc n)),
               done_t = Some (clock (Suc (Suc n)))\<rparr>"
    by (simp add: ordered_def)
  with b show ?thesis by blast
qed

text \<open>
  A new session is fresh, every method keeps a session fresh, and a call of \<^verbatim>\<open>run\<close> that
  returns leaves no response pending.
\<close>

lemma fresh_init: "responses c = [] \<Longrightarrow> fresh (Session_init c)"
  by (simp add: fresh_def Session_init_def)

lemma fresh_stub_session: "fresh (stub_session ms)"
  by (simp add: stub_session_def fresh_init)

lemma run_clean:
  assumes "run clock hydrated self statement parameters = (Inr rs, self')" and "fresh self"
  shows "responses (connection self') = []"
  using run_returns [OF assms] by blast

text \<open>
  On a connection with no pending response, a failure message that answers the first
  request is raised from the \<^verbatim>\<open>consume()\<close> of the run-response, and one that answers the
  second request from the \<^verbatim>\<open>consume()\<close> of the pull-response. In the first case the
  pull-response stays pending.
\<close>

lemma run_failure_on_run_request:
  fixes hydrated :: "'r \<Rightarrow> 'v"
  assumes "responses (connection self) = []"
    and "inbox (connection self) = map RECORD pre @ FAILURE md # rest"
  shows "\<exists>self'. run clock hydrated self statement parameters = (Inl (CypherError ''FAILURE''), self') \<and>
           last (trace (connection self')) = ConsumeBegin (RunResponse (objects self)) \<and>
           inbox (connection self') = rest \<and>
           responses (connection self') = [PullAllResponse (objects self)]"
proof -
  let ?k = "objects self"
  let ?req = "requested clock self statement parameters :: ('r, 'v) frame"
  let ?f1 = "?req\<lparr>conn := (conn ?req)\<lparr>trace := trace (conn ?req) @ [ConsumeBegin (RunResponse ?k)]\<rparr>\<rparr>"
  have "responses (conn ?f1) = RunResponse ?k # [PullAllResponse ?k]"
    using assms(1) by (simp add: requested_conn)
  from fetch_run_failure [OF this, of clock hydrated pre md rest]
  have "consume clock hydrated ?k (RunResponse ?k) ?req =
          (Inl (CypherError ''FAILURE''),
           ?f1\<lparr>conn := (conn ?f1)\<lparr>responses := [PullAllResponse ?k], inbox := rest\<rparr>\<rparr>)"
    using assms(2) by (simp add: consume_def Let_def requested_conn)
  then show ?thesis
    by (simp add: run_unfold leave_simps requested_conn)
qed

lemma run_failure_on_pull_request:
  fixes hydrated :: "'r \<Rightarrow> 'v"
  assumes "responses (connection self) = []"
    and "inbox (connection self) =
           map RECORD pre @ SUCCESS header # map RECORD rows @ FAILURE md # rest"
    and "map_of header ''fields'' = Some names"
  shows "\<exists>self'. run clock hydrated self statement parameters = (Inl (CypherError ''FAILURE''), self') \<and>
           last (trace (connection self')) = ConsumeBegin (PullAllResponse (objects self)) \<and>
           inbox (connection self') = rest \<and> responses (connection self') = []"
proof -
  let ?k = "objects self"
  let ?req = "requested clock self statement parameters :: ('r, 'v) frame"
  let ?f1 = "?req\<lparr>conn := (conn ?req)\<lparr>trace := trace (conn ?req) @ [ConsumeBegin (RunResponse ?k)]\<rparr>\<rparr>"
  have "responses (conn ?f1) = RunResponse ?k # [PullAllResponse ?k]"
    using assms(1) by (simp add: requested_conn)
  from fetch_run_success [OF this _ assms(3), of clock hydrated pre "map RECORD rows @ FAILURE md # rest"]
  obtain f7 where c1: "consume clock hydrated ?k (RunResponse ?k) ?req = (Inr (), f7)"
    and f7: "responses (conn f7) = [PullAllResponse ?k]"
      "inbox (conn f7) = map RECORD rows @ FAILURE md # rest"
      "trace (conn f7) = trace (conn ?req) @ [ConsumeBegin (RunResponse ?k), ConsumeEnd (RunResponse ?k)]"
    using assms(2) by (simp add: consume_def Let_def requested_conn)
  let ?f2 = "f7\<lparr>conn := (conn f7)\<lparr>trace := trace (conn f7) @ [ConsumeBegin (PullAllResponse ?k)]\<rparr>\<rparr>"
  have "responses (conn ?f2) = PullAllResponse ?k # []"
    using f7(1) by simp
  from fetch_pull_failure [OF this, of clock hydrated rows md rest]
  obtain f8 where c2: "consume clock hydrated ?k (PullAllResponse ?k) f7 = (Inl (CypherError ''FAILURE''), f8)"
    and f8: "conn f8 = (conn ?f2)\<lparr>responses := [], inbox := rest\<rparr>"
    using f7(2) by (auto simp: consume_def Let_def)
  from c1 c2 f8 show ?thesis
    by (simp add: run_unfold leave_simps)
qed

text \<open>Evaluation of the model on concrete sessions.\<close>

lemmas run_eval =
  run_def stub_session_def Session_init_def consume_def stamp_def append_request_def send_def
  deliver_def on_header_def on_record_def on_footer_def on_failure_def leave_def
  BenchTest_new_def Let_def

lemmas transaction_eval =
  new_transaction_def Transaction_init_def Transaction_run_def Transaction_close_def
  Transaction_commit_def Transaction_rollback_def perform_def

text \<open>
  C5. Every call of \<^verbatim>\<open>Session.run\<close> does the following to its connection, in this
  order: it enqueues the \<^verbatim>\<open>RUN\<close> request (statement and parameters) bound to the
  run-response, then the \<^verbatim>\<open>PULL_ALL\<close> request bound to the pull-response, with no flush
  in between; it flushes once, so that both requests are on the wire and nothing stays
  queued; it starts consuming the run-response; and only when that \<^verbatim>\<open>consume()\<close> has
  returned, with the run-response terminal (no longer pending), does it start consuming
  the pull-response. When a \<^verbatim>\<open>consume()\<close> raises or never returns, the sequence stops there.
\<close>

theorem run_pipeline_order:
  assumes "run clock hydrated self statement parameters = (res, self')"
  shows "wire (connection self') =
           wire (connection self) @ outbox (connection self) @
             [(RUN, Some (statement, case parameters of None \<Rightarrow> [] | Some d \<Rightarrow> d)),
              (PULL_ALL, None)] \<and>
         outbox (connection self') = [] \<and>
         (\<exists>tail.
            trace (connection self') =
              trace (connection self) @
                [Append RUN (Some (statement, case parameters of None \<Rightarrow> [] | Some d \<Rightarrow> d))
                   (RunResponse (objects self)),
                 Append PULL_ALL None (PullAllResponse (objects self)),
                 Send,
                 ConsumeBegin (RunResponse (objects self))] @ tail \<and>
            (tail = [] \<and> (\<exists>e. res = Inl e) \<or>
             tail = [ConsumeEnd (RunResponse (objects self)),
                     ConsumeBegin (PullAllResponse (objects self))] \<and>
               (\<exists>e. res = Inl e) \<and>
               RunResponse (objects self) \<notin> set (responses (connection self')) \<or>
             tail = [ConsumeEnd (RunResponse (objects self)),
                     ConsumeBegin (PullAllResponse (objects self)),
                     ConsumeEnd (PullAllResponse (objects self))] \<and>
               (\<exists>rs. res = Inr rs) \<and>
               RunResponse (objects self) \<notin> set (responses (connection self')) \<and>
               PullAllResponse (objects self) \<notin> set (responses (connection self'))))"
  using assms
proof (cases rule: run_cases)
  case (run_raised e f7)
  note c = consume_frame [OF run_raised(1)]
  from c(1,2,3) show ?thesis
    by (simp add: run_raised(2,3) leave_simps requested_conn)
next
  case (pull_raised e f7 f8)
  note c1 = consume_frame [OF pull_raised(1)]
  note c2 = consume_frame [OF pull_raised(2)]
  from c1(5) c2(4) have "RunResponse (objects self) \<notin> set (responses (conn f8))"
    by auto
  with c1(1,2,3) c2(1,2,3) show ?thesis
    by (simp add: pull_raised(3,4) leave_simps requested_conn)
next
  case (returned f7 f8)
  note c1 = consume_frame [OF returned(1)]
  note c2 = consume_frame [OF returned(2)]
  from c1(5) c2(4,5) have "RunResponse (objects self) \<notin> set (responses (conn f8))"
    "PullAllResponse (objects self) \<notin> set (responses (conn f8))"
    by auto
  with c1(1,2,3) c2(1,2,3) show ?thesis
    by (simp add: returned(3,4) leave_simps stamp_simps requested_conn)
qed

theorem run_pipeline_order_witness:
  "trace (connection (snd (run real id
     (stub_session [SUCCESS [(''fields'', [''x''])], RECORD [1::nat], SUCCESS []])
     ''RETURN 1 AS x'' None)))
   = [Append RUN (Some (''RETURN 1 AS x'', [])) (RunResponse 0),
      Append PULL_ALL None (PullAllResponse 0),
      Send,
      ConsumeBegin (RunResponse 0), ConsumeEnd (RunResponse 0),
      ConsumeBegin (PullAllResponse 0), ConsumeEnd (PullAllResponse 0)]"
proof -
  let ?ms = "[SUCCESS [(''fields'', [''x''])], RECORD [1::nat], SUCCESS []]"
  let ?run = "run real (id :: nat \<Rightarrow> nat) (stub_session ?ms) ''RETURN 1 AS x'' None"
  have r: "?run = (fst ?run, snd ?run)" by simp
  have "fst ?run = Inr [\<lparr>r_fields = [''x''], r_values = [1]\<rparr>]"
    by (simp add: run_eval)
  with run_pipeline_order [OF r] show ?thesis
    by (auto simp: stub_session_def Session_init_def)
qed



text \<open>
  C1 (as amended). When a call of \<^verbatim>\<open>Session.run\<close> on a fresh session returns, the
  messages it received are: some skipped messages (one success message for each response
  that was still pending, and record messages that no callback takes), the success
  message that carries the header, the record messages \<open>rows\<close>, and the success message
  that ends the stream. The result has one \<^verbatim>\<open>Record\<close> per record message of \<open>rows\<close>, in the
  order of arrival; the field names of each are the list of the header, and its value at
  position \<open>i\<close> is \<open>hydrated\<close> applied to the \<open>i\<close>-th raw value of its message. A record has
  as many values as its message, whatever the number of fields.
\<close>

theorem run_records:
  assumes "run clock hydrated self statement parameters = (Inr rs, self')" and "fresh self"
  shows "\<exists>skipped header names rows footer.
           inbox (connection self) =
             skipped @ SUCCESS header # map RECORD rows @ SUCCESS footer # inbox (connection self') \<and>
           (\<forall>md. FAILURE md \<notin> set skipped) \<and>
           length (filter summary skipped) = length (responses (connection self)) \<and>
           map_of header ''fields'' = Some names \<and>
           length rs = length rows \<and>
           (\<forall>n < length rows.
              r_fields (rs ! n) = names \<and>
              length (r_values (rs ! n)) = length (rows ! n) \<and>
              (\<forall>i < length (rows ! n). r_values (rs ! n) ! i = hydrated (rows ! n ! i)))"
proof -
  from run_returns [OF assms] obtain skipped header names rows footer where *:
    "inbox (connection self) =
       skipped @ SUCCESS header # map RECORD rows @ SUCCESS footer # inbox (connection self')"
    "\<forall>md. FAILURE md \<notin> set skipped"
    "length (filter summary skipped) = length (responses (connection self))"
    "map_of header ''fields'' = Some names"
    "rs = map (\<lambda>vs. \<lparr>r_fields = names, r_values = map hydrated vs\<rparr>) rows"
    by blast
  from *(5) have "length rs = length rows \<and>
           (\<forall>n < length rows.
              r_fields (rs ! n) = names \<and>
              length (r_values (rs ! n)) = length (rows ! n) \<and>
              (\<forall>i < length (rows ! n). r_values (rs ! n) ! i = hydrated (rows ! n ! i)))"
    by simp
  with *(1,2,3,4) show ?thesis by blast
qed

theorem run_records_witness:
  "fresh (stub_session [SUCCESS [(''fields'', [''x''])], RECORD [1::nat], RECORD [2], SUCCESS []]) \<and>
   fst (run real Suc
          (stub_session [SUCCESS [(''fields'', [''x''])], RECORD [1::nat], RECORD [2], SUCCESS []])
          ''RETURN 1 AS x'' None)
     = Inr [\<lparr>r_fields = [''x''], r_values = [2]\<rparr>, \<lparr>r_fields = [''x''], r_values = [3]\<rparr>]"
proof -
  let ?s = "stub_session [SUCCESS [(''fields'', [''x''])], RECORD [1::nat], RECORD [2], SUCCESS []]"
  let ?rs = "[\<lparr>r_fields = [''x''], r_values = [2::nat]\<rparr>, \<lparr>r_fields = [''x''], r_values = [3]\<rparr>]"
  have res: "fst (run real Suc ?s ''RETURN 1 AS x'' None) = Inr ?rs"
    by (simp add: run_eval)
  then have r: "run real Suc ?s ''RETURN 1 AS x'' None
             = (Inr ?rs, snd (run real Suc ?s ''RETURN 1 AS x'' None))"
    by (simp add: prod_eq_iff)
  have f: "fresh ?s"
    by (simp add: fresh_def stub_session_def Session_init_def)
  from run_records [OF r f] show ?thesis
    by (simp only: res f simp_thms)
qed

text \<open>
  C1 as stated fails in its last part: when the header names the one field \<^verbatim>\<open>x\<close> and the
  record message carries the two values 1 and 2, \<^verbatim>\<open>run\<close> returns a record with one field
  and two values.
\<close>

theorem run_value_count_counterexample:
  "fresh (stub_session [SUCCESS [(''fields'', [''x''])], RECORD [1::nat, 2], SUCCESS []]) \<and>
   run real id
     (stub_session [SUCCESS [(''fields'', [''x''])], RECORD [1::nat, 2], SUCCESS []])
     ''RETURN 1 AS x'' None
     = (Inr [\<lparr>r_fields = [''x''], r_values = [1, 2]\<rparr>],
        snd (run real id
          (stub_session [SUCCESS [(''fields'', [''x''])], RECORD [1::nat, 2], SUCCESS []])
          ''RETURN 1 AS x'' None)) \<and>
   length (r_values \<lparr>r_fields = [''x''], r_values = [1::nat, 2]\<rparr>)
     \<noteq> length (r_fields \<lparr>r_fields = [''x''], r_values = [1::nat, 2]\<rparr>)"
  by (simp add: run_eval fresh_def)

subsection \<open>Transaction\<close>

text \<open>The guard of \<^verbatim>\<open>close()\<close>, and what \<^verbatim>\<open>close()\<close> leaves behind.\<close>

lemma close_closed:
  "closed tx \<Longrightarrow> Transaction_close clock hydrated tx session = (Inl AssertionError, tx, session)"
  by (simp add: Transaction_close_def)

lemma close_returns:
  assumes "Transaction_close clock hydrated tx session = (Inr u, tx', session')"
  shows "\<not> closed tx" and "tx' = tx\<lparr>closed := True\<rparr>" and "transaction session' = None"
  using assms
  by (auto simp: Transaction_close_def split: if_splits prod.splits sum.splits)

lemma close_raises:
  assumes "Transaction_close clock hydrated tx session = (Inl e, tx', session')"
  shows "tx' = tx" and "transaction session' = transaction session"
  using assms
  by (auto simp: Transaction_close_def split: if_splits prod.splits sum.splits
      dest: run_session(1))

lemma perform_closed:
  "closed tx \<Longrightarrow>
     \<exists>tx'. perform clock hydrated c tx session = (Some AssertionError, tx', session) \<and>
       closed tx' \<and> ident tx' = ident tx"
  by (cases c)
    (simp_all add: perform_def Transaction_run_def Transaction_commit_def
      Transaction_rollback_def close_closed)

lemma perform_all_closed:
  "closed tx \<Longrightarrow>
     \<exists>tx'. perform_all clock hydrated cs tx session
            = (replicate (length cs) (Some AssertionError), tx', session) \<and>
       closed tx' \<and> ident tx' = ident tx"
proof (induction cs arbitrary: tx)
  case Nil
  then show ?case by simp
next
  case (Cons c cs)
  from perform_closed [OF Cons.prems, of clock hydrated c session] obtain tx1 where
    1: "perform clock hydrated c tx session = (Some AssertionError, tx1, session)"
    "closed tx1" "ident tx1 = ident tx"
    by blast
  from Cons.IH [OF 1(2)] obtain tx2 where
    "perform_all clock hydrated cs tx1 session
       = (replicate (length cs) (Some AssertionError), tx2, session)"
    "closed tx2" "ident tx2 = ident tx1"
    by blast
  with 1 show ?case by simp
qed

lemma new_transaction_open:
  assumes "transaction self = None"
  shows "new_transaction clock hydrated self =
           (case run clock hydrated (self\<lparr>objects := Suc (objects self)\<rparr>) ''BEGIN'' None of
              (Inl e, self1) \<Rightarrow> (Inl e, self1)
            | (Inr (rs :: 'v Record list), self1) \<Rightarrow>
                (Inr \<lparr>ident = objects self, success = False, closed = False\<rparr>,
                 self1\<lparr>transaction := Some (objects self)\<rparr>))"
  using assms
  by (simp add: new_transaction_def Transaction_init_def Let_def split: prod.splits sum.splits)

lemma new_transaction_result:
  assumes "new_transaction clock hydrated self = (res, self1)"
  shows "res = Inr tx \<Longrightarrow>
           transaction self = None \<and> transaction self1 = Some (ident tx) \<and> \<not> closed tx \<and>
           \<not> success tx \<and> ident tx = objects self"
    and "res = Inl e \<Longrightarrow> transaction self1 = transaction self"
    and "transaction self = None \<Longrightarrow> res \<noteq> Inl AssertionError"
proof -
  show "res = Inr tx \<Longrightarrow>
           transaction self = None \<and> transaction self1 = Some (ident tx) \<and> \<not> closed tx \<and>
           \<not> success tx \<and> ident tx = objects self"
    using assms
    by (cases "transaction self")
      (auto simp: new_transaction_open split: prod.splits sum.splits,
       simp add: new_transaction_def)
  show "res = Inl e \<Longrightarrow> transaction self1 = transaction self"
  proof (cases "transaction self")
    case None
    assume "res = Inl e"
    with assms None show ?thesis
      by (auto simp: new_transaction_open split: prod.splits sum.splits dest: run_session(1))
  next
    case (Some i)
    with assms show ?thesis by (simp add: new_transaction_def)
  qed
  show "transaction self = None \<Longrightarrow> res \<noteq> Inl AssertionError"
    using assms
    by (auto simp: new_transaction_open split: prod.splits sum.splits dest: run_session(3))
qed

lemma new_transaction_fresh:
  assumes "new_transaction clock hydrated self = (res, self')" and "fresh self"
  shows "fresh self'"
proof (cases "transaction self")
  case None
  have f: "fresh (self\<lparr>objects := Suc (objects self)\<rparr>)"
    using assms(2) by (auto simp: fresh_def less_Suc_eq)
  obtain r s1 where r: "run clock hydrated (self\<lparr>objects := Suc (objects self)\<rparr>) ''BEGIN'' None = (r, s1)"
    by (cases "run clock hydrated (self\<lparr>objects := Suc (objects self)\<rparr>) ''BEGIN'' None")
  from run_fresh [OF r f] have "fresh s1" .
  moreover have "fresh (s1\<lparr>transaction := Some (objects self)\<rparr>) = fresh s1"
    by (simp add: fresh_def)
  ultimately show ?thesis
    using assms(1) r by (auto simp: new_transaction_open [OF None] split: sum.splits)
next
  case (Some i)
  with assms show ?thesis by (simp add: new_transaction_def)
qed

lemma Transaction_close_fresh:
  assumes "Transaction_close clock hydrated tx self = (res, tx', self')" and "fresh self"
  shows "fresh self'"
proof (cases "closed tx")
  case True
  with assms show ?thesis by (simp add: Transaction_close_def)
next
  case False
  let ?st = "if success tx then ''COMMIT'' else ''ROLLBACK''"
  obtain r s1 where r: "run clock hydrated self ?st None = (r, s1)"
    by (cases "run clock hydrated self ?st None")
  from run_fresh [OF r assms(2)] have "fresh s1" .
  moreover have "fresh (s1\<lparr>transaction := None\<rparr>) = fresh s1"
    by (simp add: fresh_def)
  ultimately show ?thesis
    using assms(1) r False by (auto simp: Transaction_close_def split: sum.splits)
qed

text \<open>
  C4. When \<^verbatim>\<open>commit()\<close> has returned on a \<^verbatim>\<open>Transaction\<close>, the object is closed, and every
  later call of \<^verbatim>\<open>run\<close>, \<^verbatim>\<open>commit\<close>, \<^verbatim>\<open>rollback\<close> or \<^verbatim>\<open>close\<close> on it, in any number and
  order, raises \<^verbatim>\<open>AssertionError\<close>; the object stays closed and the session is not touched.
\<close>

theorem committed_is_terminal:
  assumes "Transaction_commit clock hydrated tx session = (Inr (), tx', session')"
  shows "closed tx' \<and>
         (\<exists>tx''. perform_all clock hydrated calls tx' session'
                   = (replicate (length calls) (Some AssertionError), tx'', session') \<and>
            closed tx'' \<and> ident tx'' = ident tx')"
proof -
  from assms have "closed tx'"
    by (auto simp: Transaction_commit_def dest: close_returns(2))
  with perform_all_closed [of tx' clock hydrated calls session'] show ?thesis by simp
qed

theorem committed_is_terminal_witness:
  "(let committed = Transaction_commit real (id :: nat \<Rightarrow> nat)
                      \<lparr>ident = 0, success = False, closed = False\<rparr>
                      (stub_session [SUCCESS [(''fields'', [])], SUCCESS []])
    in fst committed = Inr () \<and>
       fst (perform_all real (id :: nat \<Rightarrow> nat)
              [CallRun ''RETURN 1'' None, CallCommit, CallRollback, CallClose]
              (fst (snd committed)) (snd (snd committed)))
         = [Some AssertionError, Some AssertionError, Some AssertionError, Some AssertionError])"
proof -
  let ?c = "Transaction_commit real (id :: nat \<Rightarrow> nat)
              \<lparr>ident = 0, success = False, closed = False\<rparr>
              (stub_session [SUCCESS [(''fields'', [])], SUCCESS []])"
  let ?calls = "[CallRun ''RETURN 1'' None, CallCommit, CallRollback, CallClose] :: nat tx_call list"
  have res: "fst ?c = Inr ()"
    by (simp add: run_eval transaction_eval)
  then have c: "?c = (Inr (), fst (snd ?c), snd (snd ?c))"
    by (simp add: prod_eq_iff)
  from committed_is_terminal [OF c, of ?calls]
  have "fst (perform_all real (id :: nat \<Rightarrow> nat) ?calls (fst (snd ?c)) (snd (snd ?c)))
          = replicate (length ?calls) (Some AssertionError)"
    by (elim conjE exE) (simp only: fst_conv)
  also have "replicate (length ?calls) (Some AssertionError)
          = [Some AssertionError, Some AssertionError, Some AssertionError, Some AssertionError]"
    by (simp add: numeral_eq_Suc)
  finally show ?thesis
    using res by (simp only: Let_def simp_thms)
qed

text \<open>
  C9 (as amended). On a closed \<^verbatim>\<open>Transaction\<close>, \<^verbatim>\<open>commit()\<close> and \<^verbatim>\<open>rollback()\<close> raise
  \<^verbatim>\<open>AssertionError\<close> and leave the session as it was, but the object has \<^verbatim>\<open>success\<close> set to
  \<^verbatim>\<open>True\<close> (commit) or \<^verbatim>\<open>False\<close> (rollback), because the flag is written before the guard
  of \<^verbatim>\<open>close()\<close> is reached. The object after the call differs from the object before it
  exactly when the flag had the other value.
\<close>

theorem closed_commit_rollback:
  assumes "closed tx"
  shows "Transaction_commit clock hydrated tx session
           = (Inl AssertionError, tx\<lparr>success := True\<rparr>, session) \<and>
         Transaction_rollback clock hydrated tx session
           = (Inl AssertionError, tx\<lparr>success := False\<rparr>, session) \<and>
         (tx\<lparr>success := True\<rparr> \<noteq> tx \<longleftrightarrow> \<not> success tx) \<and>
         (tx\<lparr>success := False\<rparr> \<noteq> tx \<longleftrightarrow> success tx)"
proof -
  have "(tx\<lparr>success := True\<rparr> = tx) = success tx" "(tx\<lparr>success := False\<rparr> = tx) = (\<not> success tx)"
    by (cases tx; simp)+
  with assms show ?thesis
    by (simp add: Transaction_commit_def Transaction_rollback_def close_closed)
qed

theorem closed_commit_rollback_witness:
  "closed \<lparr>ident = 0, success = True, closed = True\<rparr> \<and>
   Transaction_rollback real (id :: nat \<Rightarrow> nat) \<lparr>ident = 0, success = True, closed = True\<rparr>
     (stub_session [])
     = (Inl AssertionError, \<lparr>ident = 0, success = False, closed = True\<rparr>, stub_session []) \<and>
   \<lparr>ident = 0, success = False, closed = True\<rparr> \<noteq> \<lparr>ident = 0, success = True, closed = True\<rparr>"
  using closed_commit_rollback [of "\<lparr>ident = 0, success = True, closed = True\<rparr>" real
      "id :: nat \<Rightarrow> nat" "stub_session []"]
  by simp

text \<open>
  C9 as stated fails: a second \<^verbatim>\<open>commit()\<close> on a committed \<^verbatim>\<open>Transaction\<close> (closed, with
  \<^verbatim>\<open>success\<close> true) raises \<^verbatim>\<open>AssertionError\<close> and leaves the object and the session
  exactly as they were.
\<close>

theorem repeated_commit_counterexample:
  "closed \<lparr>ident = 0, success = True, closed = True\<rparr> \<and>
   Transaction_commit real (id :: nat \<Rightarrow> nat) \<lparr>ident = 0, success = True, closed = True\<rparr>
     (stub_session [])
     = (Inl AssertionError, \<lparr>ident = 0, success = True, closed = True\<rparr>, stub_session [])"
  by (simp add: transaction_eval)

text \<open>
  C3. The transaction slot of a session is empty after \<^verbatim>\<open>Session.__init__\<close> and changes
  only as follows. \<^verbatim>\<open>new_transaction()\<close> on an occupied slot raises \<^verbatim>\<open>AssertionError\<close> and
  leaves the session, hence the slot, as it was; on an empty slot it fills the slot with
  the new, open \<^verbatim>\<open>Transaction\<close> when it returns, and leaves the slot empty when \<^verbatim>\<open>BEGIN\<close>
  fails. \<^verbatim>\<open>Session.run\<close> and \<^verbatim>\<open>Transaction.run\<close> do not change the slot. \<^verbatim>\<open>close()\<close>,
  \<^verbatim>\<open>commit()\<close> and \<^verbatim>\<open>rollback()\<close> empty the slot and close the object when they return, and
  leave the slot as it was when they raise. After a \<^verbatim>\<open>rollback()\<close> that returned, the slot
  is empty, \<^verbatim>\<open>new_transaction()\<close> does not raise \<^verbatim>\<open>AssertionError\<close>, and it returns a new open
  \<^verbatim>\<open>Transaction\<close> whenever its \<^verbatim>\<open>BEGIN\<close> is accepted.
\<close>

theorem transaction_slot:
  fixes hydrated :: "'r \<Rightarrow> 'v"
  shows
  "(transaction self \<noteq> None \<longrightarrow>
      new_transaction clock hydrated self = (Inl AssertionError, self)) \<and>
   (new_transaction clock hydrated self = (Inr tx, self1) \<longrightarrow>
      transaction self = None \<and> transaction self1 = Some (ident tx) \<and> \<not> closed tx) \<and>
   (new_transaction clock hydrated self = (Inl e, self1) \<longrightarrow>
      transaction self1 = transaction self) \<and>
   (run clock hydrated self statement parameters = (res, self2) \<longrightarrow>
      transaction self2 = transaction self) \<and>
   (Transaction_run clock hydrated t self statement parameters = (res, t3, self3) \<longrightarrow>
      transaction self3 = transaction self \<and> t3 = t) \<and>
   (Transaction_close clock hydrated t self = (Inr (), t4, self4) \<longrightarrow>
      \<not> closed t \<and> closed t4 \<and> transaction self4 = None) \<and>
   (Transaction_close clock hydrated t self = (Inl e, t4, self4) \<longrightarrow>
      t4 = t \<and> transaction self4 = transaction self) \<and>
   (Transaction_commit clock hydrated t self = (Inr (), t5, self5) \<longrightarrow>
      \<not> closed t \<and> closed t5 \<and> transaction self5 = None) \<and>
   (Transaction_rollback clock hydrated t self = (Inr (), t6, self6) \<longrightarrow>
      \<not> closed t \<and> closed t6 \<and> transaction self6 = None \<and>
      fst (new_transaction clock hydrated self6) \<noteq> Inl AssertionError \<and>
      (\<forall>rs self7.
         run clock hydrated (self6\<lparr>objects := Suc (objects self6)\<rparr>) ''BEGIN'' None
           = (Inr (rs :: 'v Record list), self7) \<longrightarrow>
         new_transaction clock hydrated self6 =
           (Inr \<lparr>ident = objects self6, success = False, closed = False\<rparr>,
            self7\<lparr>transaction := Some (objects self6)\<rparr>)))"
proof (intro conjI impI)
  assume "transaction self \<noteq> None"
  then show "new_transaction clock hydrated self = (Inl AssertionError, self)"
    by (simp add: new_transaction_def)
next
  assume "new_transaction clock hydrated self = (Inr tx, self1)"
  from new_transaction_result(1) [OF this refl]
  show "transaction self = None" "transaction self1 = Some (ident tx)" "\<not> closed tx"
    by simp_all
next
  assume "new_transaction clock hydrated self = (Inl e, self1)"
  from new_transaction_result(2) [OF this refl]
  show "transaction self1 = transaction self" .
next
  assume "run clock hydrated self statement parameters = (res, self2)"
  then show "transaction self2 = transaction self" by (rule run_session(1))
next
  assume *: "Transaction_run clock hydrated t self statement parameters = (res, t3, self3)"
  then show "transaction self3 = transaction self"
    by (auto simp: Transaction_run_def split: if_splits prod.splits dest: run_session(1))
  from * show "t3 = t"
    by (auto simp: Transaction_run_def split: if_splits prod.splits)
next
  assume "Transaction_close clock hydrated t self = (Inr (), t4, self4)"
  from close_returns [OF this]
  show "\<not> closed t" "closed t4" "transaction self4 = None" by simp_all
next
  assume "Transaction_close clock hydrated t self = (Inl e, t4, self4)"
  from close_raises [OF this]
  show "t4 = t" "transaction self4 = transaction self" by simp_all
next
  assume "Transaction_commit clock hydrated t self = (Inr (), t5, self5)"
  then have "Transaction_close clock hydrated (t\<lparr>success := True\<rparr>) self = (Inr (), t5, self5)"
    by (simp add: Transaction_commit_def)
  from close_returns [OF this]
  show "\<not> closed t" "closed t5" "transaction self5 = None" by simp_all
next
  assume "Transaction_rollback clock hydrated t self = (Inr (), t6, self6)"
  then have "Transaction_close clock hydrated (t\<lparr>success := False\<rparr>) self = (Inr (), t6, self6)"
    by (simp add: Transaction_rollback_def)
  from close_returns [OF this]
  show "\<not> closed t" "closed t6" and slot: "transaction self6 = None" by simp_all
  show "fst (new_transaction clock hydrated self6) \<noteq> Inl AssertionError"
    using new_transaction_result(3) [OF _ slot, of clock hydrated]
    by (cases "new_transaction clock hydrated self6") simp
  show "\<forall>rs self7.
         run clock hydrated (self6\<lparr>objects := Suc (objects self6)\<rparr>) ''BEGIN'' None
           = (Inr (rs :: 'v Record list), self7) \<longrightarrow>
         new_transaction clock hydrated self6 =
           (Inr \<lparr>ident = objects self6, success = False, closed = False\<rparr>,
            self7\<lparr>transaction := Some (objects self6)\<rparr>)"
    by (simp add: new_transaction_open [OF slot])
qed

theorem transaction_slot_witness:
  "(let ok = [SUCCESS [(''fields'', [])], SUCCESS []];
        s0 = stub_session (ok @ ok @ ok);
        opened = new_transaction real (id :: nat \<Rightarrow> nat) s0;
        s1 = snd opened;
        rolled_back = Transaction_rollback real (id :: nat \<Rightarrow> nat)
                        \<lparr>ident = 0, success = False, closed = False\<rparr> s1;
        s2 = snd (snd rolled_back)
    in fst opened = Inr \<lparr>ident = 0, success = False, closed = False\<rparr> \<and>
       transaction s1 = Some 0 \<and>
       new_transaction real (id :: nat \<Rightarrow> nat) s1 = (Inl AssertionError, s1) \<and>
       fst rolled_back = Inr () \<and>
       transaction s2 = None \<and>
       fst (new_transaction real (id :: nat \<Rightarrow> nat) s2)
         = Inr \<lparr>ident = 3, success = False, closed = False\<rparr>)"
proof -
  let ?ok = "[SUCCESS [(''fields'', [])], SUCCESS []] :: nat message list"
  let ?s0 = "stub_session (?ok @ ?ok @ ?ok)"
  let ?opened = "new_transaction real (id :: nat \<Rightarrow> nat) ?s0"
  let ?s1 = "snd ?opened"
  let ?tx = "\<lparr>ident = 0, success = False, closed = False\<rparr>"
  let ?rb = "Transaction_rollback real (id :: nat \<Rightarrow> nat) ?tx ?s1"
  let ?s2 = "snd (snd ?rb)"
  have o: "fst ?opened = Inr ?tx" "transaction ?s1 = Some 0"
    by (simp_all add: run_eval transaction_eval)
  have rb: "?rb = (Inr (), fst (snd ?rb), ?s2)"
    by (simp add: run_eval transaction_eval prod_eq_iff)
  have again: "fst (new_transaction real (id :: nat \<Rightarrow> nat) ?s2)
         = Inr \<lparr>ident = 3, success = False, closed = False\<rparr>"
    by (simp add: run_eval transaction_eval)
  note slot = transaction_slot [where clock = real and hydrated = "id :: nat \<Rightarrow> nat"
      and self = ?s1 and t = ?tx and ?t6.0 = "fst (snd ?rb)" and ?self6.0 = ?s2]
  from o(2) slot have occupied:
    "new_transaction real (id :: nat \<Rightarrow> nat) ?s1 = (Inl AssertionError, ?s1)"
    by simp
  from slot rb have empty: "transaction ?s2 = None"
    by blast
  have "fst ?rb = Inr ()"
    by (subst rb) simp
  with o occupied empty again show ?thesis
    by (simp only: Let_def simp_thms)
qed

end
